theory Spec2Isabelle
  imports Complex_Main "HOL-Library.Log_Nat" "HOL-Library.AList" "HOL-Library.Word"
    "HOL-Library.List_Lexorder" "HOL-Library.Char_ord" "HOL-Library.Multiset"
begin

section \<open>Exceptions\<close>

text \<open>
  The exceptions that the modelled code raises or lets through. A function that can raise
  returns \<open>error + 'a\<close>, with \<open>Inl\<close> for the exception.
\<close>

datatype error = ConnectionError | ResponseError | AttributeError | ValueError | TypeError

section \<open>Time synchronisation tracker (src/server/timesync_app.py)\<close>

subsection \<open>Timestamps and double-precision arithmetic\<close>

text \<open>
  A timestamp is a naive \<^verbatim>\<open>datetime\<close> as \<^verbatim>\<open>datetime.now()\<close> returns it: a count of
  microseconds (the resolution of the type), here counted from the local datetime
  \<^verbatim>\<open>datetime.fromtimestamp(0)\<close>. A \<^verbatim>\<open>timedelta\<close> is a difference of two such counts.
\<close>

type_synonym datetime = int
type_synonym timedelta = int

text \<open>
  The source computes milliseconds in Python floats (IEEE 754 binary64). A float is
  modelled by the rational it denotes; \<open>binary64\<close> rounds a rational to the nearest
  double, ties to even, with a 53-bit significand. Overflow and subnormals are not
  modelled: every quantity below is a datetime difference or a small multiple of one,
  far inside the normal range.
\<close>

definition round_half_even :: "rat \<Rightarrow> int" where
  "round_half_even q =
     (let f = \<lfloor>q\<rfloor>; r = q - of_int f
      in if r < 1 / 2 then f else if 1 / 2 < r then f + 1
         else if even f then f else f + 1)"

definition ilog2 :: "rat \<Rightarrow> int" where
  \<comment> \<open>for \<open>0 < x\<close>: the exponent \<open>e\<close> with \<open>2 powi e \<le> x < 2 powi (e + 1)\<close>\<close>
  "ilog2 x =
     (let (p, q) = quotient_of x;
          e0 = bitlen p - bitlen q
      in if 2 powi e0 \<le> x then e0 else e0 - 1)"

definition binary64_pos :: "rat \<Rightarrow> rat" where
  "binary64_pos x =
     (let u = 2 powi (ilog2 x - 52) in of_int (round_half_even (x / u)) * u)"

definition binary64 :: "rat \<Rightarrow> rat" where
  "binary64 x = (if x = 0 then 0 else if x < 0 then - binary64_pos (- x) else binary64_pos x)"

definition total_seconds :: "timedelta \<Rightarrow> rat" where
  \<comment> \<open>\<^verbatim>\<open>timedelta.total_seconds()\<close>: the microseconds divided by \<open>10^6\<close>, as a float\<close>
  "total_seconds td = binary64 (of_int td / 1000000)"

definition float_mul :: "rat \<Rightarrow> rat \<Rightarrow> rat" where
  "float_mul x y = binary64 (x * y)"

definition int_of_float :: "rat \<Rightarrow> int" where
  \<comment> \<open>Python's \<^verbatim>\<open>int(x)\<close> on a float: truncation toward zero\<close>
  "int_of_float x = (if x < 0 then - \<lfloor>- x\<rfloor> else \<lfloor>x\<rfloor>)"

definition true_div :: "int \<Rightarrow> int \<Rightarrow> rat" where
  \<comment> \<open>Python's \<^verbatim>\<open>a / b\<close> on ints with \<open>b \<noteq> 0\<close>: the correctly rounded quotient\<close>
  "true_div a b = binary64 (of_int a / of_int b)"

subsection \<open>The registry\<close>

datatype ServiceStatus = ACTIVE | STALE | DISCONNECTED

record SyncRecord =
  service :: string
  last_sync :: datetime
  last_memory_update :: datetime
  status :: ServiceStatus

record TimeSyncManager =
  sync_records :: "string \<rightharpoonup> SyncRecord"
  stale_threshold_ms :: int

definition TimeSyncManager_init :: "int \<Rightarrow> TimeSyncManager" where
  "TimeSyncManager_init threshold = \<lparr>sync_records = Map.empty, stale_threshold_ms = threshold\<rparr>"

text \<open>
  Every operation reads the clock with \<^verbatim>\<open>datetime.now()\<close>; the reading is the
  parameter \<open>now\<close>. \<^verbatim>\<open>update_sync\<close> on an unknown service reads the clock twice: once
  itself (\<open>now\<close>) and once more inside \<^verbatim>\<open>register_service\<close> (\<open>now_reg\<close>).
\<close>

definition register_service :: "TimeSyncManager \<Rightarrow> string \<Rightarrow> datetime \<Rightarrow> TimeSyncManager" where
  "register_service m svc now =
     m\<lparr>sync_records := (sync_records m)(svc \<mapsto>
          \<lparr>service = svc, last_sync = now, last_memory_update = now, status = ACTIVE\<rparr>)\<rparr>"

definition update_sync ::
  "TimeSyncManager \<Rightarrow> string \<Rightarrow> bool \<Rightarrow> datetime \<Rightarrow> datetime \<Rightarrow> datetime \<times> TimeSyncManager" where
  "update_sync m svc is_memory_update now now_reg =
     (case sync_records m svc of
        Some r \<Rightarrow>
          (now, m\<lparr>sync_records := (sync_records m)(svc \<mapsto>
             r\<lparr>last_sync := now,
               last_memory_update := (if is_memory_update then now else last_memory_update r),
               status := ACTIVE\<rparr>)\<rparr>)
      | None \<Rightarrow> (now, register_service m svc now_reg))"

definition elapsed_ms :: "SyncRecord \<Rightarrow> datetime \<Rightarrow> rat" where
  \<comment> \<open>\<^verbatim>\<open>(now - record.last_sync).total_seconds() * 1000\<close>\<close>
  "elapsed_ms r now = float_mul (total_seconds (now - last_sync r)) 1000"

definition check_stale :: "TimeSyncManager \<Rightarrow> string \<Rightarrow> datetime \<Rightarrow> bool \<times> TimeSyncManager" where
  "check_stale m svc now =
     (case sync_records m svc of
        None \<Rightarrow> (True, m)
      | Some r \<Rightarrow>
          (let diff_ms = elapsed_ms r now;
               is_stale = (of_int (stale_threshold_ms m) < diff_ms)
           in (is_stale,
               if is_stale \<and> status r = ACTIVE
               then m\<lparr>sync_records := (sync_records m)(svc \<mapsto> r\<lparr>status := STALE\<rparr>)\<rparr>
               else m)))"

datatype client_datetime = Naive datetime | Aware datetime timedelta

record CompareResponse =
  cr_service :: string
  client_timestamp :: client_datetime
  server_timestamp :: datetime
  is_client_newer :: bool
  diff_ms :: int
  diff_seconds :: rat
  needs_sync :: bool

text \<open>
  The client's timestamp is parsed from the request and is whatever the client sent: a
  naive datetime, or an aware one (an ISO string with an offset), which carries its UTC
  offset. The server's timestamp is always naive, and Python refuses to subtract a naive
  datetime from an aware one.
\<close>

definition datetime_sub :: "client_datetime \<Rightarrow> datetime \<Rightarrow> error + timedelta" where
  \<comment> \<open>\<^verbatim>\<open>client_timestamp - server_timestamp\<close> with a naive right operand\<close>
  "datetime_sub c s = (case c of Naive t \<Rightarrow> Inr (t - s) | Aware t off \<Rightarrow> Inl TypeError)"

definition compare_timestamps ::
  "TimeSyncManager \<Rightarrow> string \<Rightarrow> client_datetime \<Rightarrow> error + CompareResponse" where
  "compare_timestamps m svc client_ts =
     (let server_ts = (case sync_records m svc of Some r \<Rightarrow> last_memory_update r | None \<Rightarrow> 0)
      in case datetime_sub client_ts server_ts of
           Inl e \<Rightarrow> Inl e
         | Inr td \<Rightarrow>
             (let d = int_of_float (float_mul (total_seconds td) 1000)
              in Inr \<lparr>cr_service = svc, client_timestamp = client_ts, server_timestamp = server_ts,
                      is_client_newer = (0 < d), diff_ms = d, diff_seconds = true_div d 1000,
                      needs_sync = (1000 < \<bar>d\<bar>)\<rparr>))"

text \<open>
  The states the tracker can be in: it starts empty, and each call reads a clock that
  never runs backwards. \<open>reachable t m\<close>: \<open>m\<close> is reached with \<open>t\<close> the last reading.
\<close>

inductive reachable :: "datetime \<Rightarrow> TimeSyncManager \<Rightarrow> bool" where
  r_init: "reachable t (TimeSyncManager_init threshold)"
| r_register: "reachable t m \<Longrightarrow> t \<le> now \<Longrightarrow> reachable now (register_service m svc now)"
| r_update: "reachable t m \<Longrightarrow> t \<le> now \<Longrightarrow> now \<le> now_reg \<Longrightarrow>
     reachable now_reg (snd (update_sync m svc is_memory_update now now_reg))"
| r_check: "reachable t m \<Longrightarrow> t \<le> now \<Longrightarrow> reachable now (snd (check_stale m svc now))"

section \<open>Cache layer (src/server/redis_manager.py)\<close>

unbundle bit_operations_syntax

subsection \<open>Strings, UTF-8 and MD5\<close>

text \<open>
  A Python \<^verbatim>\<open>str\<close> is modelled as a \<open>string\<close> whose characters are the code points
  below 256; \<open>length\<close> counts code points, as \<^verbatim>\<open>len\<close> does.
\<close>

type_synonym byte = "8 word"

definition encode :: "string \<Rightarrow> byte list" where
  \<comment> \<open>\<^verbatim>\<open>str.encode()\<close>: UTF-8, one byte below 128 and two bytes from 128 to 255\<close>
  "encode s = concat (map (\<lambda>c. let n = (of_char c :: nat)
                               in if n < 128 then [of_nat n]
                                  else [of_nat (192 + n div 64), of_nat (128 + n mod 64)]) s)"

fun join :: "string \<Rightarrow> string list \<Rightarrow> string" where
  "join sep [] = []"
| "join sep [x] = x"
| "join sep (x # y # ys) = x @ sep @ join sep (y # ys)"

definition md5_s :: "nat list" where
  "md5_s = [7, 12, 17, 22, 7, 12, 17, 22, 7, 12, 17, 22, 7, 12, 17, 22,
            5, 9, 14, 20, 5, 9, 14, 20, 5, 9, 14, 20, 5, 9, 14, 20,
            4, 11, 16, 23, 4, 11, 16, 23, 4, 11, 16, 23, 4, 11, 16, 23,
            6, 10, 15, 21, 6, 10, 15, 21, 6, 10, 15, 21, 6, 10, 15, 21]"

definition md5_K :: "32 word list" where
  "md5_K = [0xd76aa478, 0xe8c7b756, 0x242070db, 0xc1bdceee, 0xf57c0faf, 0x4787c62a, 0xa8304613, 0xfd469501,
            0x698098d8, 0x8b44f7af, 0xffff5bb1, 0x895cd7be, 0x6b901122, 0xfd987193, 0xa679438e, 0x49b40821,
            0xf61e2562, 0xc040b340, 0x265e5a51, 0xe9b6c7aa, 0xd62f105d, 0x02441453, 0xd8a1e681, 0xe7d3fbc8,
            0x21e1cde6, 0xc33707d6, 0xf4d50d87, 0x455a14ed, 0xa9e3e905, 0xfcefa3f8, 0x676f02d9, 0x8d2a4c8a,
            0xfffa3942, 0x8771f681, 0x6d9d6122, 0xfde5380c, 0xa4beea44, 0x4bdecfa9, 0xf6bb4b60, 0xbebfbc70,
            0x289b7ec6, 0xeaa127fa, 0xd4ef3085, 0x04881d05, 0xd9d4d039, 0xe6db99e5, 0x1fa27cf8, 0xc4ac5665,
            0xf4292244, 0x432aff97, 0xab9423a7, 0xfc93a039, 0x655b59c3, 0x8f0ccc92, 0xffeff47d, 0x85845dd1,
            0x6fa87e4f, 0xfe2ce6e0, 0xa3014314, 0x4e0811a1, 0xf7537e82, 0xbd3af235, 0x2ad7d2bb, 0xeb86d391]"

type_synonym md5_state = "32 word \<times> 32 word \<times> 32 word \<times> 32 word"

definition md5_step :: "32 word list \<Rightarrow> md5_state \<Rightarrow> nat \<Rightarrow> md5_state" where
  "md5_step M st i =
     (case st of (a, b, c, d) \<Rightarrow>
        let (f, g) =
              (if i < 16 then ((b AND c) OR (NOT b AND d), i)
               else if i < 32 then ((d AND b) OR (NOT d AND c), (5 * i + 1) mod 16)
               else if i < 48 then (b XOR c XOR d, (3 * i + 5) mod 16)
               else (c XOR (b OR NOT d), (7 * i) mod 16));
            f' = f + a + md5_K ! i + M ! g
        in (d, b + word_rotl (md5_s ! i) f', b, c))"

definition md5_block :: "md5_state \<Rightarrow> 32 word list \<Rightarrow> md5_state" where
  "md5_block st M =
     (case st of (a0, b0, c0, d0) \<Rightarrow>
        case foldl (md5_step M) st [0..<64] of (a, b, c, d) \<Rightarrow>
          (a0 + a, b0 + b, c0 + c, d0 + d))"

definition le_word :: "byte list \<Rightarrow> 32 word" where
  \<comment> \<open>four bytes, least significant first\<close>
  "le_word bs = foldr (\<lambda>b w. push_bit 8 w OR ucast b) bs 0"

definition le_bytes :: "nat \<Rightarrow> 'a::len word \<Rightarrow> byte list" where
  \<comment> \<open>the \<open>n\<close> low bytes of a word, least significant first\<close>
  "le_bytes n w = map (\<lambda>i. ucast (drop_bit (8 * i) w)) [0..<n]"

definition md5_pad :: "byte list \<Rightarrow> byte list" where
  "md5_pad msg =
     msg @ [0x80] @ replicate ((119 - length msg mod 64) mod 64) 0
         @ le_bytes 8 (of_nat (8 * length msg) :: 64 word)"

fun chunks :: "nat \<Rightarrow> nat \<Rightarrow> 'a list \<Rightarrow> 'a list list" where
  \<comment> \<open>the first \<open>k\<close> consecutive pieces of length \<open>n\<close>\<close>
  "chunks n 0 xs = []"
| "chunks n (Suc k) xs = take n xs # chunks n k (drop n xs)"

definition md5 :: "byte list \<Rightarrow> byte list" where
  "md5 msg =
     (let padded = md5_pad msg;
          blocks = chunks 64 (length padded div 64) padded;
          words = map (\<lambda>blk. map le_word (chunks 4 16 blk)) blocks
      in case foldl md5_block (0x67452301, 0xefcdab89, 0x98badcfe, 0x10325476) words of
           (a, b, c, d) \<Rightarrow> concat (map (le_bytes 4) [a, b, c, d]))"

definition hex_digit :: "byte \<Rightarrow> char" where
  "hex_digit b = ''0123456789abcdef'' ! unat (b AND 15)"

definition hexdigest :: "byte list \<Rightarrow> string" where
  "hexdigest bs = concat (map (\<lambda>b. [hex_digit (drop_bit 4 b), hex_digit b]) bs)"

subsection \<open>Integers as text\<close>

definition is_digit :: "char \<Rightarrow> bool" where
  "is_digit c = (CHR ''0'' \<le> c \<and> c \<le> CHR ''9'')"

definition digit_val :: "char \<Rightarrow> int" where
  "digit_val c = of_char c - 48"

definition is_space :: "char \<Rightarrow> bool" where
  \<comment> \<open>the code points below 256 that \<^verbatim>\<open>int()\<close> strips from both ends of its argument\<close>
  "is_space c = ((of_char c :: nat) \<in> {9, 10, 11, 12, 13, 32, 133, 160})"

fun py_digits :: "int \<Rightarrow> string \<Rightarrow> int option" where
  "py_digits acc [] = Some acc"
| "py_digits acc [c] = (if is_digit c then Some (10 * acc + digit_val c) else None)"
| "py_digits acc (c # d # cs) =
     (if is_digit c then py_digits (10 * acc + digit_val c) (d # cs)
      else if c = CHR ''_'' \<and> is_digit d then py_digits acc (d # cs)
      else None)"

definition py_number :: "string \<Rightarrow> int option" where
  \<comment> \<open>decimal digits, single underscores allowed between them\<close>
  "py_number s = (case s of [] \<Rightarrow> None
                  | c # cs \<Rightarrow> if is_digit c then py_digits (digit_val c) cs else None)"

definition py_int :: "string \<Rightarrow> int option" where
  \<comment> \<open>Python's \<^verbatim>\<open>int(s)\<close> on a \<^verbatim>\<open>str\<close>; \<open>None\<close> is \<^verbatim>\<open>ValueError\<close>\<close>
  "py_int s =
     (let t = rev (dropWhile is_space (rev (dropWhile is_space s)))
      in case t of
           [] \<Rightarrow> None
         | c # cs \<Rightarrow>
             if c = CHR ''-'' then map_option uminus (py_number cs)
             else if c = CHR ''+'' then py_number cs
             else py_number t)"

function decimal :: "int \<Rightarrow> string" where
  "decimal n = (if n < 10 then [char_of (48 + n)] else decimal (n div 10) @ [char_of (48 + n mod 10)])"
  by pat_completeness auto
termination
  by (relation "measure nat") auto

declare decimal.simps [simp del]

definition show_int :: "int \<Rightarrow> string" where
  \<comment> \<open>\<^verbatim>\<open>str(i)\<close> of an \<^verbatim>\<open>int\<close>\<close>
  "show_int i = (if i < 0 then CHR ''-'' # decimal (- i) else decimal i)"

definition json_dumps_int :: "int \<Rightarrow> string option" where
  \<comment> \<open>\<^verbatim>\<open>json.dumps\<close> on an \<^verbatim>\<open>int\<close>: its decimal digits; it does not raise\<close>
  "json_dumps_int i = Some (show_int i)"

definition redis_ll :: "string \<Rightarrow> int option" where
  \<comment> \<open>the server's reading of a stored value as a signed 64-bit integer\<close>
  "redis_ll s =
     (let neg = (s \<noteq> [] \<and> hd s = CHR ''-''); ds = (if neg then tl s else s)
      in if ds = [] \<or> \<not> list_all is_digit ds \<or> (hd ds = CHR ''0'' \<and> (1 < length ds \<or> neg))
         then None
         else let n = foldl (\<lambda>a c. 10 * a + digit_val c) 0 ds; v = (if neg then - n else n)
              in if - (2 ^ 63) \<le> v \<and> v < 2 ^ 63 then Some v else None)"

subsection \<open>Key patterns\<close>

fun glob_class :: "string \<Rightarrow> char \<Rightarrow> bool \<Rightarrow> bool \<times> string" where
  "glob_class [] c m = (m, [])"
| "glob_class (p # ps) c m =
     (if p = CHR 0x5C \<and> ps \<noteq> [] then glob_class (tl ps) c (m \<or> hd ps = c)
      else if p = CHR '']'' then (m, ps)
      else if 2 \<le> length ps \<and> hd ps = CHR ''-''
      then glob_class (drop 2 ps) c (m \<or> (min p (ps ! 1) \<le> c \<and> c \<le> max p (ps ! 1)))
      else glob_class ps c (m \<or> p = c))"

lemma glob_class_length [termination_simp]:
  "length (snd (glob_class ps c m)) \<le> length ps"
  by (induction ps c m rule: glob_class.induct) (auto simp: le_SucI)

function glob_match :: "string \<Rightarrow> string \<Rightarrow> bool" where
  "glob_match [] s = (s = [])"
| "glob_match (p # ps) s =
     (if p = CHR ''*'' then glob_match ps s \<or> (if s = [] then False else glob_match (p # ps) (tl s))
      else if s = [] then False
      else if p = CHR ''?'' then glob_match ps (tl s)
      else if p = CHR ''[''
      then (let neg = (ps \<noteq> [] \<and> hd ps = CHR ''^'');
                res = glob_class (if neg then tl ps else ps) (hd s) False
            in fst res \<noteq> neg \<and> glob_match (snd res) (tl s))
      else if p = CHR 0x5C \<and> ps \<noteq> [] then hd ps = hd s \<and> glob_match (tl ps) (tl s)
      else p = hd s \<and> glob_match ps (tl s))"
  by pat_completeness auto
termination
proof (relation "measure (\<lambda>(p, s). length p + length s)", goal_cases)
  case 1
  then show ?case by simp
next
  case (2 p ps s)
  then show ?case by simp
next
  case (3 p ps s)
  then show ?case by (cases s) simp_all
next
  case (4 p ps s)
  then show ?case by (cases s) simp_all
next
  case (5 p ps s neg res)
  have "length (snd (glob_class (if neg then tl ps else ps) (hd s) False)) \<le> length ps"
    using glob_class_length[of "if neg then tl ps else ps" "hd s" False]
    by (cases ps) (auto split: if_splits)
  with 5 show ?case by (cases s) auto
next
  case (6 p ps s)
  then show ?case by (cases s; cases ps) simp_all
next
  case (7 p ps s)
  then show ?case by (cases s) simp_all
qed

declare glob_match.simps [simp del]

subsection \<open>The Redis server as the client sees it\<close>

text \<open>
  The store holds string values under string keys, each with an optional expiry (an
  absolute time in milliseconds); an entry past its expiry is gone. \<open>up\<close> says whether
  the server answers: when it does not, every command raises. Every command takes the
  time \<open>now\<close> (in milliseconds) at which it runs.
\<close>

type_synonym entry = "string \<times> int option"

record redis =
  entries :: "(string \<times> entry) list"
  up :: bool

definition lookup :: "redis \<Rightarrow> int \<Rightarrow> string \<Rightarrow> entry option" where
  "lookup r now k =
     (case map_of (entries r) k of
        None \<Rightarrow> None
      | Some (v, expiry) \<Rightarrow>
          (case expiry of None \<Rightarrow> Some (v, expiry)
           | Some t \<Rightarrow> if now < t then Some (v, expiry) else None))"

definition redis_ping :: "redis \<Rightarrow> error + bool" where
  "redis_ping r = (if up r then Inr True else Inl ConnectionError)"

definition redis_get :: "redis \<Rightarrow> int \<Rightarrow> string \<Rightarrow> error + string option" where
  "redis_get r now k = (if up r then Inr (map_option fst (lookup r now k)) else Inl ConnectionError)"

definition redis_set :: "redis \<Rightarrow> string \<Rightarrow> string \<Rightarrow> error + redis" where
  "redis_set r k v =
     (if up r then Inr (r\<lparr>entries := AList.update k (v, None) (entries r)\<rparr>)
      else Inl ConnectionError)"

definition redis_setex :: "redis \<Rightarrow> int \<Rightarrow> string \<Rightarrow> int \<Rightarrow> string \<Rightarrow> error + redis" where
  \<comment> \<open>\<^verbatim>\<open>SETEX key seconds value\<close>; the server refuses a time that is not positive\<close>
  "redis_setex r now k seconds v =
     (if \<not> up r then Inl ConnectionError
      else if seconds \<le> 0 then Inl ResponseError
      else Inr (r\<lparr>entries := AList.update k (v, Some (now + seconds * 1000)) (entries r)\<rparr>))"

definition redis_delete :: "redis \<Rightarrow> int \<Rightarrow> string list \<Rightarrow> error + int \<times> redis" where
  \<comment> \<open>\<^verbatim>\<open>DEL key ...\<close>: removes the keys and returns how many of them existed\<close>
  "redis_delete r now ks =
     (if up r
      then Inr (int (length (filter (\<lambda>k. lookup r now k \<noteq> None) (remdups ks))),
                r\<lparr>entries := filter (\<lambda>(k, e). k \<notin> set ks) (entries r)\<rparr>)
      else Inl ConnectionError)"

definition redis_keys :: "redis \<Rightarrow> int \<Rightarrow> string \<Rightarrow> error + string list" where
  \<comment> \<open>\<^verbatim>\<open>KEYS pattern\<close>\<close>
  "redis_keys r now pattern =
     (if up r
      then Inr (filter (\<lambda>k. lookup r now k \<noteq> None \<and> glob_match pattern k) (map fst (entries r)))
      else Inl ConnectionError)"

definition redis_flushdb :: "redis \<Rightarrow> error + redis" where
  "redis_flushdb r = (if up r then Inr (r\<lparr>entries := []\<rparr>) else Inl ConnectionError)"

definition redis_incr :: "redis \<Rightarrow> int \<Rightarrow> string \<Rightarrow> error + int \<times> redis" where
  \<comment> \<open>\<^verbatim>\<open>INCR key\<close>: a missing key counts as 0 and gets no expiry; an expiry is kept\<close>
  "redis_incr r now k =
     (if \<not> up r then Inl ConnectionError
      else case lookup r now k of
             None \<Rightarrow> Inr (1, r\<lparr>entries := AList.update k (show_int 1, None) (entries r)\<rparr>)
           | Some (v, expiry) \<Rightarrow>
               (case redis_ll v of
                  None \<Rightarrow> Inl ResponseError
                | Some n \<Rightarrow>
                    if n = 2 ^ 63 - 1 then Inl ResponseError
                    else Inr (n + 1,
                              r\<lparr>entries := AList.update k (show_int (n + 1), expiry) (entries r)\<rparr>)))"

subsection \<open>RedisCache\<close>

record RedisCache =
  connected :: bool
  redis_client :: "redis option"

definition RedisCache_init :: "redis \<Rightarrow> RedisCache" where
  \<comment> \<open>the constructor, given the server that the URL names\<close>
  "RedisCache_init srv =
     (case redis_ping srv of
        Inr _ \<Rightarrow> \<lparr>connected = True, redis_client = Some srv\<rparr>
      | Inl _ \<Rightarrow> \<lparr>connected = False, redis_client = None\<rparr>)"

definition client :: "RedisCache \<Rightarrow> error + redis" where
  \<comment> \<open>\<^verbatim>\<open>self.redis_client\<close> as the receiver of a call: a call on \<^verbatim>\<open>None\<close> raises\<close>
  "client c = (case redis_client c of None \<Rightarrow> Inl AttributeError | Some r \<Rightarrow> Inr r)"

definition joined_key :: "('a \<Rightarrow> string) \<Rightarrow> string \<Rightarrow> 'a list \<Rightarrow> (string \<times> 'a) list \<Rightarrow> string" where
  \<comment> \<open>the local \<^verbatim>\<open>key\<close> of \<^verbatim>\<open>_generate_key\<close> before its length is checked; \<open>str\<close> is
      \<^verbatim>\<open>str()\<close> on the arguments, \<open>kwargs\<close> the keyword arguments in the order of the call
      (a \<^verbatim>\<open>dict\<close>: no name twice)\<close>
  "joined_key str prefix args kwargs =
     (let key_parts = [prefix] @ map str args;
          key_parts = (if kwargs \<noteq> []
                       then key_parts @ map (\<lambda>(k, v). k @ '':'' @ str v) (sort_key fst kwargs)
                       else key_parts)
      in join '':'' key_parts)"

definition generate_key :: "('a \<Rightarrow> string) \<Rightarrow> string \<Rightarrow> 'a list \<Rightarrow> (string \<times> 'a) list \<Rightarrow> string" where
  \<comment> \<open>\<^verbatim>\<open>_generate_key(prefix, *args, **kwargs)\<close>\<close>
  "generate_key str prefix args kwargs =
     (let key = joined_key str prefix args kwargs
      in if 256 < length key then prefix @ '':'' @ hexdigest (md5 (encode key)) else key)"

text \<open>
  \<^verbatim>\<open>json.loads\<close> and \<^verbatim>\<open>json.dumps\<close> are parameters: \<open>loads s = None\<close> when
  \<^verbatim>\<open>json.loads\<close> raises or returns \<^verbatim>\<open>None\<close>, \<open>dumps v = None\<close> when \<^verbatim>\<open>json.dumps\<close>
  raises. Every method catches every exception, so none returns an error.
\<close>

definition get :: "(string \<Rightarrow> 'v option) \<Rightarrow> RedisCache \<Rightarrow> int \<Rightarrow> string \<Rightarrow> 'v option" where
  "get loads c now key =
     (if \<not> connected c then None
      else case client c of
             Inl e \<Rightarrow> None
           | Inr r \<Rightarrow>
               (case redis_get r now key of
                  Inl e \<Rightarrow> None
                | Inr None \<Rightarrow> None
                | Inr (Some v) \<Rightarrow> if v \<noteq> [] then loads v else None))"

definition set_key ::
  "('v \<Rightarrow> string option) \<Rightarrow> RedisCache \<Rightarrow> int \<Rightarrow> string \<Rightarrow> 'v \<Rightarrow> int option \<Rightarrow> bool \<times> RedisCache" where
  \<comment> \<open>the method \<^verbatim>\<open>set\<close>; \<open>ttl = None\<close> and \<open>ttl = Some 0\<close> are the falsy values\<close>
  "set_key dumps c now key v ttl =
     (if \<not> connected c then (False, c)
      else case dumps v of
             None \<Rightarrow> (False, c)
           | Some serialized \<Rightarrow>
               (case client c of
                  Inl e \<Rightarrow> (False, c)
                | Inr r \<Rightarrow>
                    (case (if ttl \<noteq> None \<and> ttl \<noteq> Some 0
                           then redis_setex r now key (the ttl) serialized
                           else redis_set r key serialized) of
                       Inl e \<Rightarrow> (False, c)
                     | Inr r' \<Rightarrow> (True, c\<lparr>redis_client := Some r'\<rparr>))))"

definition delete :: "RedisCache \<Rightarrow> int \<Rightarrow> string \<Rightarrow> bool \<times> RedisCache" where
  "delete c now key =
     (if \<not> connected c then (False, c)
      else case client c of
             Inl e \<Rightarrow> (False, c)
           | Inr r \<Rightarrow>
               (case redis_delete r now [key] of
                  Inl e \<Rightarrow> (False, c)
                | Inr (n, r') \<Rightarrow> (True, c\<lparr>redis_client := Some r'\<rparr>)))"

definition clear_pattern :: "RedisCache \<Rightarrow> int \<Rightarrow> string \<Rightarrow> int \<times> RedisCache" where
  "clear_pattern c now pattern =
     (if \<not> connected c then (0, c)
      else case client c of
             Inl e \<Rightarrow> (0, c)
           | Inr r \<Rightarrow>
               (case redis_keys r now pattern of
                  Inl e \<Rightarrow> (0, c)
                | Inr keys \<Rightarrow>
                    if keys \<noteq> []
                    then (case redis_delete r now keys of
                            Inl e \<Rightarrow> (0, c)
                          | Inr (n, r') \<Rightarrow> (n, c\<lparr>redis_client := Some r'\<rparr>))
                    else (0, c)))"

definition clear_all :: "RedisCache \<Rightarrow> bool \<times> RedisCache" where
  "clear_all c =
     (if \<not> connected c then (False, c)
      else case client c of
             Inl e \<Rightarrow> (False, c)
           | Inr r \<Rightarrow>
               (case redis_flushdb r of
                  Inl e \<Rightarrow> (False, c)
                | Inr r' \<Rightarrow> (True, c\<lparr>redis_client := Some r'\<rparr>)))"

subsection \<open>SessionManager\<close>

record SessionManager =
  sm_cache :: RedisCache
  session_ttl :: int

definition SessionManager_init :: "RedisCache \<Rightarrow> SessionManager" where
  "SessionManager_init c = \<lparr>sm_cache = c, session_ttl = 86400 * 7\<rparr>"

definition create_session ::
  "('v \<Rightarrow> string option) \<Rightarrow> SessionManager \<Rightarrow> int \<Rightarrow> string \<Rightarrow> 'v \<Rightarrow> string \<times> SessionManager" where
  "create_session dumps sm now user_id data =
     (let session_key = ''session:'' @ user_id;
          res = set_key dumps (sm_cache sm) now session_key data (Some (session_ttl sm))
      in (session_key, sm\<lparr>sm_cache := snd res\<rparr>))"

definition update_session ::
  "('v \<Rightarrow> string option) \<Rightarrow> SessionManager \<Rightarrow> int \<Rightarrow> string \<Rightarrow> 'v \<Rightarrow> bool \<times> SessionManager" where
  \<comment> \<open>\<^verbatim>\<open>self.create_session(user_id, data) is not None\<close>\<close>
  "update_session dumps sm now user_id data =
     (let res = create_session dumps sm now user_id data
      in (Some (fst res) \<noteq> None, snd res))"

subsection \<open>RateLimiter\<close>

definition is_allowed :: "RedisCache \<Rightarrow> int \<Rightarrow> string \<Rightarrow> int \<Rightarrow> int \<Rightarrow> error + bool \<times> RedisCache" where
  "is_allowed c now identifier max_requests window =
     (if \<not> connected c then Inr (True, c)
      else let key = ''ratelimit:'' @ identifier
           in case client c of
                Inl e \<Rightarrow> Inl e
              | Inr r \<Rightarrow>
                  (case redis_get r now key of
                     Inl e \<Rightarrow> Inl e
                   | Inr None \<Rightarrow>
                       Inr (True, snd (set_key json_dumps_int c now key 1 (Some window)))
                   | Inr (Some current) \<Rightarrow>
                       (case py_int current of
                          None \<Rightarrow> Inl ValueError
                        | Some current_count \<Rightarrow>
                            if max_requests \<le> current_count then Inr (False, c)
                            else (case redis_incr r now key of
                                    Inl e \<Rightarrow> Inl e
                                  | Inr (n, r') \<Rightarrow> Inr (True, c\<lparr>redis_client := Some r'\<rparr>)))))"

definition get_remaining :: "RedisCache \<Rightarrow> int \<Rightarrow> string \<Rightarrow> int \<Rightarrow> error + int" where
  "get_remaining c now identifier max_requests =
     (if \<not> connected c then Inr max_requests
      else let key = ''ratelimit:'' @ identifier
           in case client c of
                Inl e \<Rightarrow> Inl e
              | Inr r \<Rightarrow>
                  (case redis_get r now key of
                     Inl e \<Rightarrow> Inl e
                   | Inr None \<Rightarrow> Inr max_requests
                   | Inr (Some current) \<Rightarrow>
                       (case py_int current of
                          None \<Rightarrow> Inl ValueError
                        | Some n \<Rightarrow> Inr (max 0 (max_requests - n)))))"

subsection \<open>MemoryCache\<close>

record MemoryCache =
  mc_cache :: RedisCache
  search_ttl :: int
  memory_ttl :: int
  stats_ttl :: int

definition MemoryCache_init :: "RedisCache \<Rightarrow> MemoryCache" where
  "MemoryCache_init c = \<lparr>mc_cache = c, search_ttl = 3600, memory_ttl = 86400, stats_ttl = 300\<rparr>"

definition cache_search ::
  "('v \<Rightarrow> string option) \<Rightarrow> MemoryCache \<Rightarrow> int \<Rightarrow> string \<Rightarrow> 'v \<Rightarrow> string \<Rightarrow> bool \<times> MemoryCache" where
  "cache_search dumps mc now query results user_id =
     (let key = generate_key id ''search'' [user_id, query] [];
          res = set_key dumps (mc_cache mc) now key results (Some (search_ttl mc))
      in (fst res, mc\<lparr>mc_cache := snd res\<rparr>))"

definition get_cached_search ::
  "(string \<Rightarrow> 'v option) \<Rightarrow> MemoryCache \<Rightarrow> int \<Rightarrow> string \<Rightarrow> string \<Rightarrow> 'v option" where
  "get_cached_search loads mc now query user_id =
     (let key = generate_key id ''search'' [user_id, query] []
      in get loads (mc_cache mc) now key)"

definition invalidate_searches :: "MemoryCache \<Rightarrow> int \<Rightarrow> string \<Rightarrow> int \<times> MemoryCache" where
  "invalidate_searches mc now user_id =
     (let pattern = (if user_id \<noteq> ''*'' then ''search:'' @ user_id @ '':*'' else ''search:*'');
          res = clear_pattern (mc_cache mc) now pattern
      in (fst res, mc\<lparr>mc_cache := snd res\<rparr>))"

section \<open>Properties of the double-precision model\<close>

lemma round_half_even_floor: "\<lfloor>q\<rfloor> \<le> round_half_even q"
  by (simp add: round_half_even_def Let_def)

lemma round_half_even_le_floor_Suc: "round_half_even q \<le> \<lfloor>q\<rfloor> + 1"
  by (simp add: round_half_even_def Let_def)

lemma round_half_even_mono: "q \<le> q' \<Longrightarrow> round_half_even q \<le> round_half_even q'"
proof -
  assume le: "q \<le> q'"
  then have "\<lfloor>q\<rfloor> \<le> \<lfloor>q'\<rfloor>" by (rule floor_mono)
  then consider "\<lfloor>q\<rfloor> = \<lfloor>q'\<rfloor>" | "\<lfloor>q\<rfloor> + 1 \<le> \<lfloor>q'\<rfloor>" by linarith
  then show ?thesis
  proof cases
    case 1
    with le show ?thesis by (auto simp: round_half_even_def Let_def)
  next
    case 2
    then show ?thesis
      using round_half_even_le_floor_Suc[of q] round_half_even_floor[of q'] by linarith
  qed
qed

lemma round_half_even_of_int [simp]: "round_half_even (of_int n) = n"
  by (simp add: round_half_even_def)

lemma pow2_bitlen_less: "0 < p \<Longrightarrow> (of_int p :: rat) < 2 powi (bitlen p)"
proof -
  assume p: "0 < p"
  have "p < 2 ^ nat (bitlen p)" using bitlen_bounds[OF p] by simp
  then have "(of_int p :: rat) < of_int (2 ^ nat (bitlen p))" by (simp only: of_int_less_iff)
  then show ?thesis by (simp add: power_int_def bitlen_nonneg)
qed

lemma pow2_bitlen_le: "0 < p \<Longrightarrow> (2::rat) powi (bitlen p - 1) \<le> of_int p"
proof -
  assume p: "0 < p"
  then have b: "1 \<le> bitlen p" by (simp add: bitlen_alt_def)
  have "2 ^ nat (bitlen p - 1) \<le> p" using bitlen_bounds[OF p] by simp
  then have "(of_int (2 ^ nat (bitlen p - 1)) :: rat) \<le> of_int p" by (simp only: of_int_le_iff)
  then show ?thesis using b by (simp add: power_int_def)
qed

lemma pow2_less_cancel: "(2::rat) powi a < 2 powi b \<Longrightarrow> a < b"
  using power_int_increasing[of b a "2::rat"] by (cases "a < b") auto

lemma ilog2_bounds:
  assumes "0 < x"
  shows "2 powi (ilog2 x) \<le> x \<and> x < 2 powi (ilog2 x + 1)"
proof -
  obtain p q where pq: "quotient_of x = (p, q)" by (cases "quotient_of x")
  then have q: "0 < q" and x: "x = of_int p / of_int q"
    by (simp_all add: quotient_of_denom_pos quotient_of_div)
  with assms have p: "0 < p" by (simp add: zero_less_divide_iff)
  define e0 where "e0 = bitlen p - bitlen q"
  have "x < 2 powi (bitlen p) / 2 powi (bitlen q - 1)"
    unfolding x
    by (rule frac_less) (use p q pow2_bitlen_less[OF p] pow2_bitlen_le[OF q] in simp_all)
  also have "\<dots> = 2 powi (e0 + 1)"
    by (simp add: e0_def power_int_diff[symmetric] algebra_simps)
  finally have up: "x < 2 powi (e0 + 1)" .
  have "2 powi (bitlen p - 1) / 2 powi (bitlen q) < x"
    unfolding x
    by (rule frac_less2) (use p q pow2_bitlen_less[OF q] pow2_bitlen_le[OF p] in simp_all)
  moreover have "(2::rat) powi (bitlen p - 1) / 2 powi (bitlen q) = 2 powi (e0 - 1)"
    by (simp add: e0_def power_int_diff[symmetric] algebra_simps)
  ultimately have lo: "2 powi (e0 - 1) < x" by simp
  have "ilog2 x = (if 2 powi e0 \<le> x then e0 else e0 - 1)"
    by (simp add: ilog2_def pq e0_def)
  with up lo show ?thesis by auto
qed

lemma ilog2_mono: "0 < x \<Longrightarrow> x \<le> y \<Longrightarrow> ilog2 x \<le> ilog2 y"
proof -
  assume x: "0 < x" and le: "x \<le> y"
  then have y: "0 < y" by simp
  have "(2::rat) powi (ilog2 x) < 2 powi (ilog2 y + 1)"
    using ilog2_bounds[OF x] ilog2_bounds[OF y] le by linarith
  then have "ilog2 x < ilog2 y + 1" by (rule pow2_less_cancel)
  then show ?thesis by simp
qed

lemma binary64_pos_lower:
  assumes "0 < x" shows "2 powi (ilog2 x) \<le> binary64_pos x"
proof -
  define u :: rat where "u = 2 powi (ilog2 x - 52)"
  have u: "0 < u" by (simp add: u_def)
  have "2 powi (ilog2 x) = of_int (2 ^ 52) * u"
    by (simp add: u_def power_int_diff)
  moreover have "of_int (2 ^ 52) \<le> x / u"
    using ilog2_bounds[OF assms] u calculation by (simp add: pos_le_divide_eq)
  then have "round_half_even (of_int (2 ^ 52)) \<le> round_half_even (x / u)"
    by (rule round_half_even_mono)
  then have "(of_int (2 ^ 52) :: rat) \<le> of_int (round_half_even (x / u))"
    unfolding round_half_even_of_int by (simp only: of_int_le_iff)
  ultimately show ?thesis
    using u by (simp add: binary64_pos_def u_def[symmetric] Let_def)
qed

lemma binary64_pos_upper:
  assumes "0 < x" shows "binary64_pos x \<le> 2 powi (ilog2 x + 1)"
proof -
  define u :: rat where "u = 2 powi (ilog2 x - 52)"
  have u: "0 < u" by (simp add: u_def)
  have "2 powi (ilog2 x + 1) = of_int (2 ^ 53) * u"
    by (simp add: u_def power_int_diff power_int_add)
  moreover have "x / u \<le> of_int (2 ^ 53)"
    using ilog2_bounds[OF assms] u calculation by (simp add: pos_divide_le_eq)
  then have "round_half_even (x / u) \<le> round_half_even (of_int (2 ^ 53))"
    by (rule round_half_even_mono)
  then have "(of_int (round_half_even (x / u)) :: rat) \<le> of_int (2 ^ 53)"
    unfolding round_half_even_of_int by (simp only: of_int_le_iff)
  ultimately show ?thesis
    using u by (simp add: binary64_pos_def u_def[symmetric] Let_def)
qed

lemma binary64_pos_mono:
  assumes "0 < x" "x \<le> y" shows "binary64_pos x \<le> binary64_pos y"
proof (cases "ilog2 x = ilog2 y")
  case True
  define u :: rat where "u = 2 powi (ilog2 y - 52)"
  have u: "0 < u" by (simp add: u_def)
  have "x / u \<le> y / u" using assms u by (simp add: divide_right_mono)
  then have "round_half_even (x / u) \<le> round_half_even (y / u)"
    by (rule round_half_even_mono)
  then have "(of_int (round_half_even (x / u)) :: rat) * u \<le> of_int (round_half_even (y / u)) * u"
    using u by simp
  then show ?thesis by (simp add: binary64_pos_def True u_def Let_def)
next
  case False
  have y: "0 < y" using assms by simp
  from False ilog2_mono[OF assms] have "ilog2 x + 1 \<le> ilog2 y" by simp
  then have "(2::rat) powi (ilog2 x + 1) \<le> 2 powi (ilog2 y)"
    by (rule power_int_increasing) simp
  with binary64_pos_upper[OF assms(1)] binary64_pos_lower[OF y] show ?thesis by linarith
qed

lemma binary64_pos_positive: "0 < x \<Longrightarrow> 0 < binary64_pos x"
  using binary64_pos_lower[of x] by (meson less_le_trans zero_less_numeral zero_less_power_int)

lemma binary64_mono: "x \<le> y \<Longrightarrow> binary64 x \<le> binary64 y"
proof -
  assume le: "x \<le> y"
  consider "0 < x" | "x \<le> 0" "0 \<le> y" | "y < 0" by linarith
  then show ?thesis
  proof cases
    case 1
    with le binary64_pos_mono[of x y] show ?thesis by (simp add: binary64_def)
  next
    case 2
    have "binary64 x \<le> 0"
      using 2(1) binary64_pos_positive[of "- x"] by (cases "x = 0") (simp_all add: binary64_def)
    moreover have "0 \<le> binary64 y"
      using 2(2) binary64_pos_positive[of y] by (cases "y = 0") (simp_all add: binary64_def)
    ultimately show ?thesis by simp
  next
    case 3
    with le binary64_pos_mono[of "- y" "- x"] show ?thesis by (simp add: binary64_def)
  qed
qed


section \<open>Properties of the tracker\<close>

lemma reachable_ordered:
  "reachable t m \<Longrightarrow> sync_records m svc = Some r \<Longrightarrow>
     last_memory_update r \<le> last_sync r \<and> last_sync r \<le> t"
proof (induction arbitrary: svc r rule: reachable.induct)
  case (r_init t threshold)
  then show ?case by (simp add: TimeSyncManager_init_def)
next
  case (r_register t m now svc')
  then show ?case
    by (cases "svc = svc'") (fastforce simp: register_service_def)+
next
  case (r_update t m now now_reg svc' is_memory_update)
  show ?case
  proof (cases "sync_records m svc'")
    case None
    with r_update show ?thesis
      by (cases "svc = svc'") (fastforce simp: update_sync_def register_service_def)+
  next
    case (Some r')
    with r_update.IH[of svc' r'] have "last_memory_update r' \<le> last_sync r'" "last_sync r' \<le> t"
      by simp_all
    with Some r_update show ?thesis
      by (cases "svc = svc'") (fastforce simp: update_sync_def)+
  qed
next
  case (r_check t m now svc')
  show ?case
  proof (cases "sync_records m svc'")
    case None
    with r_check show ?thesis
      by (fastforce simp: check_stale_def)
  next
    case (Some r')
    with r_check.IH[of svc' r'] have "last_memory_update r' \<le> last_sync r'" "last_sync r' \<le> t"
      by simp_all
    with Some r_check show ?thesis
      by (cases "svc = svc'") (fastforce simp: check_stale_def Let_def split: if_splits)+
  qed
qed

subsection \<open>The millisecond conversion\<close>

lemma float_ms_mono:
  "d \<le> d' \<Longrightarrow> float_mul (total_seconds d) 1000 \<le> float_mul (total_seconds d') 1000"
  unfolding float_mul_def total_seconds_def
  by (intro binary64_mono mult_right_mono divide_right_mono) simp_all

lemma float_ms_neg: "float_mul (total_seconds (- d)) 1000 = - float_mul (total_seconds d) 1000"
  by (simp add: float_mul_def total_seconds_def binary64_def)

lemma float_ms_0: "float_mul (total_seconds 0) 1000 = 0"
  by (simp add: float_mul_def total_seconds_def binary64_def)

lemma float_ms_nonneg: "0 \<le> d \<Longrightarrow> 0 \<le> float_mul (total_seconds d) 1000"
  using float_ms_mono[of 0 d] by (simp add: float_ms_0)

lemma float_ms_abs: "float_mul (total_seconds \<bar>d\<bar>) 1000 = \<bar>float_mul (total_seconds d) 1000\<bar>"
proof (cases "0 \<le> d")
  case True
  then show ?thesis using float_ms_nonneg[of d] by simp
next
  case False
  then have "0 \<le> float_mul (total_seconds (- d)) 1000" by (intro float_ms_nonneg) simp
  with False show ?thesis by (simp add: float_ms_neg)
qed

lemma int_of_float_pos: "(0 < int_of_float x) = (1 \<le> x)"
  by (auto simp: int_of_float_def)

lemma int_of_float_abs: "\<bar>int_of_float x\<bar> = \<lfloor>\<bar>x\<bar>\<rfloor>"
  by (auto simp: int_of_float_def abs_if) linarith+

text \<open>
  The conversion at the inputs the proofs below need, computed in the model. The first
  four are the doubles themselves, as the fractions that \<^verbatim>\<open>float.as_integer_ratio\<close>
  gives for \<^verbatim>\<open>timedelta(microseconds=d).total_seconds()\<close> and for its product with 1000.
\<close>

lemma total_seconds_1001000: "total_seconds 1001000 = 2254051613498933 / 2251799813685248"
  by code_simp

lemma float_ms_1001000_ratio:
  "float_mul (total_seconds 1001000) 1000 = 8804889115230207 / 8796093022208"
  by code_simp

lemma total_seconds_2007000: "total_seconds 2007000 = 4519362226066293 / 2251799813685248"
  by code_simp

lemma float_ms_2007000_ratio:
  "float_mul (total_seconds 2007000) 1000 = 8826879347785729 / 4398046511104"
  by code_simp

lemma float_ms_999: "float_mul (total_seconds 999) 1000 < 1"
  by code_simp

lemma float_ms_1000: "float_mul (total_seconds 1000) 1000 = 1"
  by code_simp

lemma float_ms_200000: "int_of_float (float_mul (total_seconds 200000) 1000) = 200"
  by code_simp

lemma float_ms_1001000: "float_mul (total_seconds 1001000) 1000 < 1001"
  by code_simp

lemma float_ms_1001001: "1001 \<le> float_mul (total_seconds 1001001) 1000"
  by code_simp

lemma float_ms_2007000: "2007 < float_mul (total_seconds 2007000) 1000"
  by code_simp

lemma float_ms_5000000: "int_of_float (float_mul (total_seconds 5000000) 1000) = 5000"
  by code_simp

lemma float_ms_60000000: "float_mul (total_seconds 60000000) 1000 = 60000"
  by code_simp

lemma float_ms_60000001: "60000 < float_mul (total_seconds 60000001) 1000"
  by code_simp

text \<open>
  With the default threshold of 60000 ms the double-precision comparison of
  \<^verbatim>\<open>check_stale\<close> is the exact one, to the microsecond.
\<close>

lemma stale_default_exact:
  "(60000 < float_mul (total_seconds d) 1000) = (60000000 < d)"
proof (cases "60000000 < d")
  case True
  then have "float_mul (total_seconds 60000001) 1000 \<le> float_mul (total_seconds d) 1000"
    by (intro float_ms_mono) simp
  with float_ms_60000001 True show ?thesis by simp
next
  case False
  then have "float_mul (total_seconds d) 1000 \<le> float_mul (total_seconds 60000000) 1000"
    by (intro float_ms_mono) simp
  with float_ms_60000000 False show ?thesis by simp
qed

lemma newer_exact: "(0 < int_of_float (float_mul (total_seconds d) 1000)) = (1000 \<le> d)"
proof (cases "1000 \<le> d")
  case True
  from float_ms_mono[OF True] show ?thesis
    using True by (simp add: int_of_float_pos float_ms_1000)
next
  case False
  then have "d \<le> 999" by simp
  from float_ms_mono[OF this] float_ms_999 False show ?thesis
    by (simp add: int_of_float_pos)
qed

lemma needs_sync_exact:
  "(1000 < \<bar>int_of_float (float_mul (total_seconds d) 1000)\<bar>) = (1001000 < \<bar>d\<bar>)"
proof -
  have "(1000 < \<bar>int_of_float (float_mul (total_seconds d) 1000)\<bar>)
        = (1001 \<le> float_mul (total_seconds \<bar>d\<bar>) 1000)"
    unfolding int_of_float_abs float_ms_abs by linarith
  also have "\<dots> = (1001000 < \<bar>d\<bar>)"
  proof (cases "1001000 < \<bar>d\<bar>")
    case True
    then have "1001001 \<le> \<bar>d\<bar>" by simp
    from float_ms_mono[OF this] float_ms_1001001 True show ?thesis by simp
  next
    case False
    then have "\<bar>d\<bar> \<le> 1001000" by simp
    from float_ms_mono[OF this] float_ms_1001000 False show ?thesis by simp
  qed
  finally show ?thesis .
qed

subsection \<open>Staleness\<close>

lemma check_stale_unknown:
  "sync_records m svc = None \<Longrightarrow> check_stale m svc now = (True, m)"
  by (simp add: check_stale_def)

lemma check_stale_known:
  "sync_records m svc = Some r \<Longrightarrow>
   check_stale m svc now =
     (of_int (stale_threshold_ms m) < elapsed_ms r now,
      if of_int (stale_threshold_ms m) < elapsed_ms r now \<and> status r = ACTIVE
      then m\<lparr>sync_records := (sync_records m)(svc \<mapsto> r\<lparr>status := STALE\<rparr>)\<rparr> else m)"
  by (simp add: check_stale_def Let_def)

lemma elapsed_ms_mono: "now \<le> now' \<Longrightarrow> elapsed_ms r now \<le> elapsed_ms r now'"
  unfolding elapsed_ms_def by (rule float_ms_mono) simp

lemma elapsed_ms_status [simp]: "elapsed_ms (r\<lparr>status := s\<rparr>) now = elapsed_ms r now"
  by (simp add: elapsed_ms_def)

lemma check_stale_again:
  assumes "fst (check_stale m svc now)" "now \<le> now'"
  shows "check_stale (snd (check_stale m svc now)) svc now' = (True, snd (check_stale m svc now))"
proof (cases "sync_records m svc")
  case None
  then show ?thesis by (simp add: check_stale_unknown)
next
  case (Some r)
  from assms(1) Some have st: "of_int (stale_threshold_ms m) < elapsed_ms r now"
    by (simp add: check_stale_known)
  with elapsed_ms_mono[OF assms(2), of r]
  have st': "of_int (stale_threshold_ms m) < elapsed_ms r now'" by linarith
  show ?thesis
  proof (cases "status r = ACTIVE")
    case True
    with Some st st' show ?thesis
      by (simp add: check_stale_known)
  next
    case False
    with Some st st' show ?thesis
      by (simp add: check_stale_known)
  qed
qed

text \<open>
  Claim C4, as the code has it. \<^verbatim>\<open>check_stale\<close> on an unknown service returns true and
  leaves the registry as it is. On a known service it returns whether the age of the
  last sync, converted to milliseconds in double precision
  (\<^verbatim>\<open>(now - last_sync).total_seconds() * 1000\<close>), exceeds the threshold, and it sets
  the status to stale exactly when that holds and the status is active. With the default
  threshold of 60000 ms the result is exactly \<open>now - last_sync > 60000 ms\<close>. After a
  call that returned true, a later call (the clock not running backwards) returns true
  again and changes nothing.
\<close>

theorem check_stale_spec:
  "(sync_records m svc = None \<longrightarrow> check_stale m svc now = (True, m)) \<and>
   (sync_records m svc = Some r \<longrightarrow>
      check_stale m svc now =
        (of_int (stale_threshold_ms m) < elapsed_ms r now,
         if of_int (stale_threshold_ms m) < elapsed_ms r now \<and> status r = ACTIVE
         then m\<lparr>sync_records := (sync_records m)(svc \<mapsto> r\<lparr>status := STALE\<rparr>)\<rparr> else m)) \<and>
   (sync_records m svc = Some r \<longrightarrow> stale_threshold_ms m = 60000 \<longrightarrow>
      fst (check_stale m svc now) = (60000 * 1000 < now - last_sync r)) \<and>
   (fst (check_stale m svc now) \<longrightarrow> now \<le> now' \<longrightarrow>
      check_stale (snd (check_stale m svc now)) svc now' = (True, snd (check_stale m svc now)))"
  using check_stale_again[of m svc now now']
  by (simp add: check_stale_unknown check_stale_known elapsed_ms_def stale_default_exact)

theorem check_stale_spec_witness:
  "check_stale (TimeSyncManager_init 60000) ''svc'' 5 = (True, TimeSyncManager_init 60000) \<and>
   fst (check_stale (register_service (TimeSyncManager_init 60000) ''svc'' 0) ''svc'' 60000001) \<and>
   \<not> fst (check_stale (register_service (TimeSyncManager_init 60000) ''svc'' 0) ''svc'' 60000000) \<and>
   check_stale (snd (check_stale (register_service (TimeSyncManager_init 60000) ''svc'' 0) ''svc'' 60000001)) ''svc'' 60000002 =
     (True, snd (check_stale (register_service (TimeSyncManager_init 60000) ''svc'' 0) ''svc'' 60000001))"
proof -
  let ?e = "TimeSyncManager_init 60000"
  let ?m = "register_service ?e ''svc'' 0"
  let ?r = "\<lparr>service = ''svc'', last_sync = 0, last_memory_update = 0, status = ACTIVE\<rparr>"
  have none: "sync_records ?e ''svc'' = None"
    by (simp add: TimeSyncManager_init_def)
  have some: "sync_records ?m ''svc'' = Some ?r"
    by (simp add: register_service_def)
  have thr: "stale_threshold_ms ?m = 60000"
    by (simp add: register_service_def TimeSyncManager_init_def)
  have le: "(60000001::int) \<le> 60000002" by simp
  note S = check_stale_spec[where m = ?m and svc = "''svc''" and r = ?r]
  have 1: "check_stale ?e ''svc'' 5 = (True, ?e)"
    by (rule check_stale_spec[where m = ?e, THEN conjunct1, rule_format, OF none])
  have "fst (check_stale ?m ''svc'' 60000001) = (60000 * 1000 < 60000001 - last_sync ?r)"
    by (rule S[THEN conjunct2, THEN conjunct2, THEN conjunct1, rule_format, OF some thr])
  then have 2: "fst (check_stale ?m ''svc'' 60000001)" by simp
  have "fst (check_stale ?m ''svc'' 60000000) = (60000 * 1000 < 60000000 - last_sync ?r)"
    by (rule S[THEN conjunct2, THEN conjunct2, THEN conjunct1, rule_format, OF some thr])
  then have 3: "\<not> fst (check_stale ?m ''svc'' 60000000)" by simp
  have 4: "check_stale (snd (check_stale ?m ''svc'' 60000001)) ''svc'' 60000002 =
     (True, snd (check_stale ?m ''svc'' 60000001))"
    by (rule S[THEN conjunct2, THEN conjunct2, THEN conjunct2, rule_format, OF 2 le])
  from 1 2 3 4 show ?thesis by blast
qed

text \<open>
  The comparison is not the exact one for every threshold. With a threshold of 2007 ms
  and a last sync exactly 2007 ms ago, \<open>2.007 * 1000\<close> is \<open>2007.0000000000002\<close> in
  double precision: \<^verbatim>\<open>check_stale\<close> returns true although the age does not exceed
  the threshold.
\<close>

theorem check_stale_counterexample:
  "fst (check_stale (register_service (TimeSyncManager_init 2007) ''svc'' 0) ''svc'' 2007000) \<noteq>
     (stale_threshold_ms (register_service (TimeSyncManager_init 2007) ''svc'' 0) * 1000
        < 2007000 - last_sync (the (sync_records (register_service (TimeSyncManager_init 2007) ''svc'' 0) ''svc'')))"
  by (simp add: register_service_def TimeSyncManager_init_def check_stale_def Let_def
      elapsed_ms_def float_ms_2007000)

subsection \<open>Comparing timestamps\<close>

text \<open>
  What \<^verbatim>\<open>compare_timestamps\<close> does on a naive client timestamp. The server
  timestamp is the service's \<^verbatim>\<open>last_memory_update\<close> (the epoch if the service is
  unknown); \<^verbatim>\<open>diff_ms\<close> is the difference converted to milliseconds in double
  precision and truncated toward zero; \<^verbatim>\<open>is_client_newer = diff_ms > 0\<close>, which holds
  exactly when the client is at least 1 ms ahead; \<^verbatim>\<open>diff_seconds = diff_ms / 1000\<close>;
  \<^verbatim>\<open>needs_sync = |diff_ms| > 1000\<close>, which holds exactly when the timestamps are more
  than 1.001 s apart. The two examples of the specification hold: after registering at
  \<open>t0\<close>, \<open>t0 + 5 s\<close> gives \<^verbatim>\<open>diff_ms = 5000\<close> and \<^verbatim>\<open>needs_sync\<close>, and
  \<open>t0 + 200 ms\<close> gives no \<^verbatim>\<open>needs_sync\<close>.
\<close>

lemma compare_timestamps_naive:
  "\<exists>res. compare_timestamps m svc (Naive ts) = Inr res \<and>
     server_timestamp res =
       (case sync_records m svc of Some r \<Rightarrow> last_memory_update r | None \<Rightarrow> 0) \<and>
     diff_ms res = int_of_float (float_mul (total_seconds (ts - server_timestamp res)) 1000) \<and>
     is_client_newer res = (0 < diff_ms res) \<and>
     is_client_newer res = (1000 \<le> ts - server_timestamp res) \<and>
     diff_seconds res = true_div (diff_ms res) 1000 \<and>
     needs_sync res = (1000 < \<bar>diff_ms res\<bar>) \<and>
     needs_sync res = (1001000 < \<bar>ts - server_timestamp res\<bar>)"
  by (simp add: compare_timestamps_def datetime_sub_def Let_def newer_exact needs_sync_exact)

lemma compare_timestamps_examples:
  "(\<exists>res. compare_timestamps (register_service m svc t0) svc (Naive (t0 + 5000000)) = Inr res \<and>
      is_client_newer res \<and> diff_ms res = 5000 \<and> needs_sync res) \<and>
   (\<exists>res. compare_timestamps (register_service m svc t0) svc (Naive (t0 + 200000)) = Inr res \<and>
      \<not> needs_sync res)"
  by (simp add: compare_timestamps_def datetime_sub_def Let_def register_service_def
      float_ms_5000000 float_ms_200000)

text \<open>
  Claim C5 fails on the code, in two ways. For a naive client timestamp exactly 1001 ms
  after the server's, \<open>1.001 * 1000\<close> is \<open>1000.9999999999999\<close> in double precision and
  \<^verbatim>\<open>int\<close> truncates it: \<^verbatim>\<open>diff_ms\<close> is 1000, not 1001, and \<^verbatim>\<open>needs_sync\<close> is
  false although the timestamps are more than 1000 ms apart. For an aware client
  timestamp (here 5 s after the registration, with offset 0) the subtraction raises
  \<^verbatim>\<open>TypeError\<close> and nothing is returned.
\<close>

theorem compare_timestamps_fails:
  "map_sum id diff_ms
     (compare_timestamps (register_service (TimeSyncManager_init 60000) ''svc'' 0) ''svc''
        (Naive 1001000)) = Inr 1000 \<and>
   (1001000 - 0) div 1000 = (1001::int) \<and>
   map_sum id needs_sync
     (compare_timestamps (register_service (TimeSyncManager_init 60000) ''svc'' 0) ''svc''
        (Naive 1001000)) = Inr False \<and>
   compare_timestamps (register_service (TimeSyncManager_init 60000) ''svc'' 0) ''svc''
     (Aware 5000000 0) = Inl TypeError"
  by code_simp

subsection \<open>Recording a sync\<close>

text \<open>
  Claim C6, as the code has it. \<^verbatim>\<open>update_sync\<close> returns the clock reading \<open>now\<close> it
  took on entry and touches no other service. For a known service it sets
  \<^verbatim>\<open>last_sync\<close> to \<open>now\<close>, \<^verbatim>\<open>last_memory_update\<close> to \<open>now\<close> when the flag is true
  (and leaves it when false), and the status to active. An unknown service is
  registered by \<^verbatim>\<open>register_service\<close>, which reads the clock again: both timestamps
  of the new record are that second reading \<open>now_reg\<close>, whatever the flag.
\<close>

theorem update_sync_spec:
  "fst (update_sync m svc flag now now_reg) = now \<and>
   stale_threshold_ms (snd (update_sync m svc flag now now_reg)) = stale_threshold_ms m \<and>
   (svc' \<noteq> svc \<longrightarrow>
      sync_records (snd (update_sync m svc flag now now_reg)) svc' = sync_records m svc') \<and>
   (sync_records m svc = Some r \<longrightarrow>
      sync_records (snd (update_sync m svc flag now now_reg)) svc =
        Some (r\<lparr>last_sync := now,
                 last_memory_update := (if flag then now else last_memory_update r),
                 status := ACTIVE\<rparr>)) \<and>
   (sync_records m svc = None \<longrightarrow>
      sync_records (snd (update_sync m svc flag now now_reg)) svc =
        Some \<lparr>service = svc, last_sync = now_reg, last_memory_update = now_reg, status = ACTIVE\<rparr>)"
  by (cases "sync_records m svc") (simp_all add: update_sync_def register_service_def)

theorem update_sync_spec_witness:
  "fst (update_sync (register_service (TimeSyncManager_init 60000) ''a'' 5) ''a'' False 9 10) = 9 \<and>
   sync_records (snd (update_sync (register_service (TimeSyncManager_init 60000) ''a'' 5) ''a'' False 9 10)) ''a'' =
     Some \<lparr>service = ''a'', last_sync = 9, last_memory_update = 5, status = ACTIVE\<rparr> \<and>
   sync_records (snd (update_sync (register_service (TimeSyncManager_init 60000) ''a'' 5) ''a'' False 9 10)) ''b'' = None \<and>
   sync_records (snd (update_sync (TimeSyncManager_init 60000) ''a'' False 9 10)) ''a'' =
     Some \<lparr>service = ''a'', last_sync = 10, last_memory_update = 10, status = ACTIVE\<rparr>"
  using update_sync_spec[of "register_service (TimeSyncManager_init 60000) ''a'' 5" "''a''" False 9 10 "''b''"
          "\<lparr>service = ''a'', last_sync = 5, last_memory_update = 5, status = ACTIVE\<rparr>"]
        update_sync_spec[of "TimeSyncManager_init 60000" "''a''" False 9 10 "''b''"]
  by (simp add: register_service_def TimeSyncManager_init_def)

text \<open>
  For an unknown service the returned timestamp is not the stored \<^verbatim>\<open>last_sync\<close> once
  the clock moves between the two readings, and \<^verbatim>\<open>last_memory_update\<close> is set although
  the flag is false.
\<close>

theorem update_sync_counterexample:
  "fst (update_sync (TimeSyncManager_init 60000) ''svc'' False 0 1) = 0 \<and>
   map_option last_sync
     (sync_records (snd (update_sync (TimeSyncManager_init 60000) ''svc'' False 0 1)) ''svc'') = Some 1 \<and>
   map_option last_memory_update
     (sync_records (snd (update_sync (TimeSyncManager_init 60000) ''svc'' False 0 1)) ''svc'') = Some 1"
  by (simp add: update_sync_def register_service_def TimeSyncManager_init_def)

subsection \<open>The two timestamps of a record\<close>

lemma update_sync_keeps_memory_update:
  "sync_records m svc = Some r \<Longrightarrow>
   map_option last_memory_update (sync_records (snd (update_sync m svc' False now now_reg)) svc) =
     Some (last_memory_update r)"
  by (cases "sync_records m svc'")
     (auto simp: update_sync_def register_service_def)

lemma check_stale_keeps_memory_update:
  "map_option last_memory_update (sync_records (snd (check_stale m svc' now)) svc) =
     map_option last_memory_update (sync_records m svc)"
  by (cases "sync_records m svc'") (auto simp: check_stale_def Let_def)

text \<open>
  Claim C9, as the code has it. In every state reached from the empty registry by
  \<^verbatim>\<open>register_service\<close>, \<^verbatim>\<open>update_sync\<close> and \<^verbatim>\<open>check_stale\<close> calls under a clock
  that never runs backwards, every record has \<open>last_memory_update \<le> last_sync\<close>. The
  \<^verbatim>\<open>last_memory_update\<close> of a service is set to the clock reading when the service is
  registered (by \<^verbatim>\<open>register_service\<close>, again on every re-registration, or by
  \<^verbatim>\<open>update_sync\<close> on an unknown service, whatever the flag) and when \<^verbatim>\<open>update_sync\<close>
  is called for it with the flag true. \<^verbatim>\<open>update_sync\<close> with the flag false leaves the
  \<^verbatim>\<open>last_memory_update\<close> of every known service as it is, and so do \<^verbatim>\<open>check_stale\<close>
  and a registration of another service.
\<close>

theorem memory_update_discipline:
  "(reachable t m \<longrightarrow> sync_records m svc = Some r \<longrightarrow> last_memory_update r \<le> last_sync r) \<and>
   map_option last_memory_update (sync_records (register_service m svc now) svc) = Some now \<and>
   (sync_records m svc = None \<longrightarrow>
      map_option last_memory_update (sync_records (snd (update_sync m svc flag now now_reg)) svc) =
        Some now_reg) \<and>
   (sync_records m svc = Some r \<longrightarrow>
      map_option last_memory_update (sync_records (snd (update_sync m svc True now now_reg)) svc) =
        Some now) \<and>
   (sync_records m svc = Some r \<longrightarrow>
      map_option last_memory_update (sync_records (snd (update_sync m svc' False now now_reg)) svc) =
        Some (last_memory_update r)) \<and>
   map_option last_memory_update (sync_records (snd (check_stale m svc' now)) svc) =
     map_option last_memory_update (sync_records m svc) \<and>
   (svc' \<noteq> svc \<longrightarrow>
      sync_records (register_service m svc' now) svc = sync_records m svc \<and>
      sync_records (snd (update_sync m svc' flag now now_reg)) svc = sync_records m svc)"
proof -
  have 1: "last_memory_update r \<le> last_sync r" if "reachable t m" "sync_records m svc = Some r"
    using reachable_ordered[OF that] by simp
  have 2: "map_option last_memory_update (sync_records (register_service m svc now) svc) = Some now"
    by (simp add: register_service_def)
  have 3: "map_option last_memory_update
             (sync_records (snd (update_sync m svc flag now now_reg)) svc) = Some now_reg"
    if "sync_records m svc = None"
    using that by (simp add: update_sync_def register_service_def)
  have 4: "map_option last_memory_update
             (sync_records (snd (update_sync m svc True now now_reg)) svc) = Some now"
    if "sync_records m svc = Some r"
    using that by (simp add: update_sync_def)
  have 5: "sync_records (register_service m svc' now) svc = sync_records m svc \<and>
           sync_records (snd (update_sync m svc' flag now now_reg)) svc = sync_records m svc"
    if "svc' \<noteq> svc"
    using that by (cases "sync_records m svc'") (simp_all add: update_sync_def register_service_def)
  from 1 2 3 4 5 update_sync_keeps_memory_update[of m svc r svc' now now_reg]
    check_stale_keeps_memory_update[of m svc' now svc]
  show ?thesis by blast
qed

theorem memory_update_discipline_witness:
  "reachable 7 (snd (update_sync (register_service (TimeSyncManager_init 60000) ''a'' 3) ''a'' False 7 7)) \<and>
   sync_records (snd (update_sync (register_service (TimeSyncManager_init 60000) ''a'' 3) ''a'' False 7 7)) ''a'' =
     Some \<lparr>service = ''a'', last_sync = 7, last_memory_update = 3, status = ACTIVE\<rparr> \<and>
   last_memory_update \<lparr>service = ''a'', last_sync = 7, last_memory_update = 3, status = ACTIVE\<rparr>
     \<le> last_sync \<lparr>service = ''a'', last_sync = 7, last_memory_update = 3, status = ACTIVE\<rparr> \<and>
   map_option last_memory_update
     (sync_records (snd (update_sync (TimeSyncManager_init 60000) ''a'' False 7 8)) ''a'') = Some 8 \<and>
   map_option last_memory_update
     (sync_records (snd (update_sync (register_service (TimeSyncManager_init 60000) ''a'' 3) ''a'' True 7 7)) ''a'') =
     Some 7 \<and>
   map_option last_memory_update
     (sync_records (snd (update_sync (register_service (TimeSyncManager_init 60000) ''a'' 3) ''a'' False 7 7)) ''a'') =
     Some 3 \<and>
   sync_records (register_service (register_service (TimeSyncManager_init 60000) ''a'' 3) ''b'' 9) ''a'' =
     sync_records (register_service (TimeSyncManager_init 60000) ''a'' 3) ''a''"
proof -
  let ?e = "TimeSyncManager_init 60000"
  let ?m = "register_service ?e ''a'' 3"
  let ?r = "\<lparr>service = ''a'', last_sync = 3, last_memory_update = 3, status = ACTIVE\<rparr>"
  let ?r' = "\<lparr>service = ''a'', last_sync = 7, last_memory_update = 3, status = ACTIVE\<rparr>"
  have r1: "reachable 0 ?e" by (rule r_init)
  have r2: "reachable 3 ?m" by (rule r_register[OF r1]) simp
  have r3: "reachable 7 (snd (update_sync ?m ''a'' False 7 7))"
    by (rule r_update[OF r2]) simp_all
  have none: "sync_records ?e ''a'' = None" by (simp add: TimeSyncManager_init_def)
  have some: "sync_records ?m ''a'' = Some ?r" by (simp add: register_service_def)
  have some': "sync_records (snd (update_sync ?m ''a'' False 7 7)) ''a'' = Some ?r'"
    by (simp add: update_sync_def register_service_def TimeSyncManager_init_def)
  have ne: "''b'' \<noteq> ''a''" by simp
  note D = memory_update_discipline
  have 1: "last_memory_update ?r' \<le> last_sync ?r'"
    by (rule D[THEN conjunct1, rule_format, OF r3 some'])
  have 2: "map_option last_memory_update (sync_records (snd (update_sync ?e ''a'' False 7 8)) ''a'') = Some 8"
    by (rule D[THEN conjunct2, THEN conjunct2, THEN conjunct1, rule_format, OF none])
  have 3: "map_option last_memory_update (sync_records (snd (update_sync ?m ''a'' True 7 7)) ''a'') = Some 7"
    by (rule D[THEN conjunct2, THEN conjunct2, THEN conjunct2, THEN conjunct1, rule_format, OF some])
  have 4: "map_option last_memory_update (sync_records (snd (update_sync ?m ''a'' False 7 7)) ''a'') =
      Some (last_memory_update ?r)"
    by (rule D[THEN conjunct2, THEN conjunct2, THEN conjunct2, THEN conjunct2, THEN conjunct1,
          rule_format, OF some])
  have 5: "sync_records (register_service ?m ''b'' 9) ''a'' = sync_records ?m ''a''"
    by (rule D[where flag = False and now_reg = 9, THEN conjunct2, THEN conjunct2, THEN conjunct2,
          THEN conjunct2, THEN conjunct2, THEN conjunct2, rule_format, OF ne, THEN conjunct1])
  from r3 some' 1 2 3 4 5 show ?thesis by simp
qed

text \<open>
  \<^verbatim>\<open>last_memory_update\<close> also changes without a memory-update signal: registering a
  registered service again, in a reachable state, moves it from 3 to 9.
\<close>

theorem memory_update_counterexample:
  "reachable 3 (register_service (TimeSyncManager_init 60000) ''a'' 3) \<and>
   reachable 9 (register_service (register_service (TimeSyncManager_init 60000) ''a'' 3) ''a'' 9) \<and>
   map_option last_memory_update
     (sync_records (register_service (TimeSyncManager_init 60000) ''a'' 3) ''a'') = Some 3 \<and>
   map_option last_memory_update
     (sync_records (register_service (register_service (TimeSyncManager_init 60000) ''a'' 3) ''a'' 9) ''a'') =
     Some 9"
proof -
  have 1: "reachable 0 (TimeSyncManager_init 60000)" by (rule r_init)
  have 2: "reachable 3 (register_service (TimeSyncManager_init 60000) ''a'' 3)"
    by (rule r_register[OF 1]) simp
  have 3: "reachable 9 (register_service (register_service (TimeSyncManager_init 60000) ''a'' 3) ''a'' 9)"
    by (rule r_register[OF 2]) simp
  from 2 3 show ?thesis by (simp add: register_service_def)
qed

section \<open>Properties of the cache layer\<close>

subsection \<open>The disabled cache\<close>

lemma set_key_failed: "\<not> fst (set_key dumps c now key v ttl) \<Longrightarrow> snd (set_key dumps c now key v ttl) = c"
  by (auto simp: set_key_def split: option.splits sum.splits if_splits)

text \<open>
  Claim C2. A cache whose connection failed at construction is disabled, and on a
  disabled cache every operation returns its default and leaves the cache as it is:
  \<^verbatim>\<open>get\<close> returns \<^verbatim>\<open>None\<close>, \<^verbatim>\<open>set\<close> and \<^verbatim>\<open>delete\<close> return false,
  \<^verbatim>\<open>clear_pattern\<close> returns 0 and \<^verbatim>\<open>clear_all\<close> returns false. The operations
  catch every exception, so their results have no error case at all.
\<close>

theorem disabled_cache_defaults:
  "(\<not> up srv \<longrightarrow> \<not> connected (RedisCache_init srv)) \<and>
   (\<not> connected c \<longrightarrow>
      get loads c now key = None \<and>
      set_key dumps c now key v ttl = (False, c) \<and>
      delete c now key = (False, c) \<and>
      clear_pattern c now pattern = (0, c) \<and>
      clear_all c = (False, c))"
  by (simp add: RedisCache_init_def redis_ping_def get_def set_key_def delete_def
      clear_pattern_def clear_all_def)

theorem disabled_cache_defaults_witness:
  "\<not> up \<lparr>entries = [(''k'', ''1'', None)], up = False\<rparr> \<and>
   \<not> connected (RedisCache_init \<lparr>entries = [(''k'', ''1'', None)], up = False\<rparr>) \<and>
   get py_int (RedisCache_init \<lparr>entries = [(''k'', ''1'', None)], up = False\<rparr>) 0 ''k'' = None \<and>
   set_key json_dumps_int (RedisCache_init \<lparr>entries = [(''k'', ''1'', None)], up = False\<rparr>) 0 ''k'' 2 (Some 3600) =
     (False, RedisCache_init \<lparr>entries = [(''k'', ''1'', None)], up = False\<rparr>) \<and>
   delete (RedisCache_init \<lparr>entries = [(''k'', ''1'', None)], up = False\<rparr>) 0 ''k'' =
     (False, RedisCache_init \<lparr>entries = [(''k'', ''1'', None)], up = False\<rparr>) \<and>
   clear_pattern (RedisCache_init \<lparr>entries = [(''k'', ''1'', None)], up = False\<rparr>) 0 ''*'' =
     (0, RedisCache_init \<lparr>entries = [(''k'', ''1'', None)], up = False\<rparr>) \<and>
   clear_all (RedisCache_init \<lparr>entries = [(''k'', ''1'', None)], up = False\<rparr>) =
     (False, RedisCache_init \<lparr>entries = [(''k'', ''1'', None)], up = False\<rparr>)"
proof -
  let ?srv = "\<lparr>entries = [(''k'', ''1'', None)], up = False\<rparr>"
  have down: "\<not> up ?srv" by simp
  note D = disabled_cache_defaults[where srv = ?srv and c = "RedisCache_init ?srv"]
  have off: "\<not> connected (RedisCache_init ?srv)"
    by (rule D[THEN conjunct1, rule_format, OF down])
  from D[THEN conjunct2, rule_format, OF off, where loads = py_int and now = 0 and key = "''k''"
         and dumps = json_dumps_int and v = 2 and ttl = "Some 3600" and pattern = "''*''"]
    down off
  show ?thesis by blast
qed

subsection \<open>Sessions\<close>

text \<open>
  Claim C10. \<^verbatim>\<open>update_session\<close> returns true for every user and every session data:
  \<^verbatim>\<open>create_session\<close> returns the session key, which is never \<^verbatim>\<open>None\<close>. In particular
  it returns true, with nothing stored, when the cache is disabled and when the
  underlying \<^verbatim>\<open>set\<close> reports failure.
\<close>

theorem update_session_always_true:
  "fst (update_session dumps sm now user_id data) \<and>
   (\<not> connected (sm_cache sm) \<longrightarrow> update_session dumps sm now user_id data = (True, sm)) \<and>
   (\<not> fst (set_key dumps (sm_cache sm) now (''session:'' @ user_id) data (Some (session_ttl sm))) \<longrightarrow>
      update_session dumps sm now user_id data = (True, sm))"
proof -
  have 1: "fst (update_session dumps sm now user_id data)"
    by (simp add: update_session_def create_session_def Let_def)
  have 2: "update_session dumps sm now user_id data = (True, sm)"
    if "\<not> fst (set_key dumps (sm_cache sm) now (''session:'' @ user_id) data (Some (session_ttl sm)))"
    using set_key_failed[OF that] by (simp add: update_session_def create_session_def Let_def)
  have 3: "update_session dumps sm now user_id data = (True, sm)" if "\<not> connected (sm_cache sm)"
    using that by (intro 2) (simp add: set_key_def)
  from 1 2 3 show ?thesis by blast
qed

theorem update_session_always_true_witness:
  "\<not> connected (sm_cache (SessionManager_init (RedisCache_init \<lparr>entries = [], up = False\<rparr>))) \<and>
   update_session (\<lambda>d. Some d) (SessionManager_init (RedisCache_init \<lparr>entries = [], up = False\<rparr>)) 0 ''alice'' ''{}'' =
     (True, SessionManager_init (RedisCache_init \<lparr>entries = [], up = False\<rparr>)) \<and>
   \<not> fst (set_key (\<lambda>d. None) (sm_cache (SessionManager_init (RedisCache_init \<lparr>entries = [], up = True\<rparr>))) 0 (''session:'' @ ''alice'')
         ''{}'' (Some (session_ttl (SessionManager_init (RedisCache_init \<lparr>entries = [], up = True\<rparr>))))) \<and>
   update_session (\<lambda>d. None) (SessionManager_init (RedisCache_init \<lparr>entries = [], up = True\<rparr>)) 0 ''alice'' ''{}'' =
     (True, SessionManager_init (RedisCache_init \<lparr>entries = [], up = True\<rparr>))"
proof -
  let ?off = "SessionManager_init (RedisCache_init \<lparr>entries = [], up = False\<rparr>)"
  let ?on = "SessionManager_init (RedisCache_init \<lparr>entries = [], up = True\<rparr>)"
  have a: "\<not> connected (sm_cache ?off)"
    by (simp add: SessionManager_init_def RedisCache_init_def redis_ping_def)
  have b: "\<not> fst (set_key (\<lambda>d. None) (sm_cache ?on) 0 (''session:'' @ ''alice'') ''{}'' (Some (session_ttl ?on)))"
    by (simp add: set_key_def)
  note U = update_session_always_true[where user_id = "''alice''" and data = "''{}''" and now = 0]
  from U[where sm = ?off and dumps = "\<lambda>d. Some d", THEN conjunct2, THEN conjunct1, rule_format, OF a]
       U[where sm = ?on and dumps = "\<lambda>d. None", THEN conjunct2, THEN conjunct2, rule_format, OF b]
       a b
  show ?thesis by blast
qed

subsection \<open>The rate limiter\<close>

lemma lookup_update:
  "lookup (r\<lparr>entries := AList.update k (v, ex) (entries r)\<rparr>) now k' =
     (if k' = k then (case ex of None \<Rightarrow> Some (v, ex) | Some t \<Rightarrow> if now < t then Some (v, ex) else None)
      else lookup r now k')"
  by (simp add: lookup_def update_conv')

lemma is_allowed_first:
  assumes "connected c" "redis_client c = Some r" "up r"
    and "lookup r now (''ratelimit:'' @ identifier) = None" "0 < window"
  shows "is_allowed c now identifier max_requests window =
     Inr (True, c\<lparr>redis_client := Some (r\<lparr>entries :=
        AList.update (''ratelimit:'' @ identifier) (show_int 1, Some (now + window * 1000)) (entries r)\<rparr>)\<rparr>)"
  using assms
  by (simp add: is_allowed_def client_def redis_get_def set_key_def json_dumps_int_def redis_setex_def)

lemma is_allowed_next:
  assumes "connected c" "redis_client c = Some r" "up r"
    and "lookup r now (''ratelimit:'' @ identifier) = Some (current, expiry)"
    and "py_int current = Some n" "redis_ll current = Some n" "n < max_requests" "n \<noteq> 2 ^ 63 - 1"
  shows "is_allowed c now identifier max_requests window =
     Inr (True, c\<lparr>redis_client := Some (r\<lparr>entries :=
        AList.update (''ratelimit:'' @ identifier) (show_int (n + 1), expiry) (entries r)\<rparr>)\<rparr>)"
  using assms
  by (simp add: is_allowed_def client_def redis_get_def redis_incr_def)

lemma is_allowed_denied:
  assumes "connected c" "redis_client c = Some r" "up r"
    and "lookup r now (''ratelimit:'' @ identifier) = Some (current, expiry)"
    and "py_int current = Some n" "max_requests \<le> n"
  shows "is_allowed c now identifier max_requests window = Inr (False, c)"
  using assms
  by (simp add: is_allowed_def client_def redis_get_def)

lemma get_remaining_counter:
  assumes "connected c" "redis_client c = Some r" "up r"
    and "lookup r now (''ratelimit:'' @ identifier) = Some (current, expiry)"
    and "py_int current = Some n"
  shows "get_remaining c now identifier max_requests = Inr (max 0 (max_requests - n))"
  using assms
  by (simp add: get_remaining_def client_def redis_get_def)

lemma get_remaining_none:
  assumes "connected c" "redis_client c = Some r" "up r"
    and "lookup r now (''ratelimit:'' @ identifier) = None"
  shows "get_remaining c now identifier max_requests = Inr max_requests"
  using assms
  by (simp add: get_remaining_def client_def redis_get_def)

lemma show_int_1: "show_int 1 = ''1''" by code_simp
lemma show_int_2: "show_int 2 = ''2''" by code_simp
lemma show_int_3: "show_int 3 = ''3''" by code_simp
lemma py_int_1: "py_int ''1'' = Some 1" by code_simp
lemma py_int_2: "py_int ''2'' = Some 2" by code_simp
lemma py_int_3: "py_int ''3'' = Some 3" by code_simp
lemma redis_ll_1: "redis_ll ''1'' = Some 1" by code_simp
lemma redis_ll_2: "redis_ll ''2'' = Some 2" by code_simp

text \<open>
  Claim C8. On a disabled cache \<^verbatim>\<open>is_allowed\<close> returns true and \<^verbatim>\<open>get_remaining\<close>
  returns \<^verbatim>\<open>max_requests\<close>. On a connected cache whose server answers,
  \<^verbatim>\<open>get_remaining\<close> returns \<^verbatim>\<open>max_requests\<close> when the identifier has no counter, and
  \<open>max 0 (max_requests - n)\<close> when its counter reads \<open>n\<close>.
\<close>

theorem rate_limiter_fail_open:
  "(\<not> connected c \<longrightarrow>
      is_allowed c now identifier max_requests window = Inr (True, c) \<and>
      get_remaining c now identifier max_requests = Inr max_requests) \<and>
   (connected c \<longrightarrow> redis_client c = Some r \<longrightarrow> up r \<longrightarrow>
      lookup r now (''ratelimit:'' @ identifier) = None \<longrightarrow>
      get_remaining c now identifier max_requests = Inr max_requests) \<and>
   (connected c \<longrightarrow> redis_client c = Some r \<longrightarrow> up r \<longrightarrow>
      lookup r now (''ratelimit:'' @ identifier) = Some (current, expiry) \<longrightarrow>
      py_int current = Some n \<longrightarrow>
      get_remaining c now identifier max_requests = Inr (max 0 (max_requests - n)))"
  by (simp add: is_allowed_def get_remaining_def client_def redis_get_def)

theorem rate_limiter_fail_open_witness:
  "is_allowed (RedisCache_init \<lparr>entries = [(''ratelimit:bob'', ''2'', None)], up = False\<rparr>) 0 ''bob'' 3 60 =
     Inr (True, RedisCache_init \<lparr>entries = [(''ratelimit:bob'', ''2'', None)], up = False\<rparr>) \<and>
   get_remaining (RedisCache_init \<lparr>entries = [(''ratelimit:bob'', ''2'', None)], up = False\<rparr>) 0 ''bob'' 3 = Inr 3 \<and>
   get_remaining (RedisCache_init \<lparr>entries = [(''ratelimit:bob'', ''2'', None)], up = True\<rparr>) 0 ''alice'' 3 = Inr 3 \<and>
   get_remaining (RedisCache_init \<lparr>entries = [(''ratelimit:bob'', ''2'', None)], up = True\<rparr>) 0 ''bob'' 3 = Inr 1 \<and>
   get_remaining (RedisCache_init \<lparr>entries = [(''ratelimit:bob'', ''7'', None)], up = True\<rparr>) 0 ''bob'' 3 = Inr 0"
proof -
  let ?off = "RedisCache_init \<lparr>entries = [(''ratelimit:bob'', ''2'', None)], up = False\<rparr>"
  let ?r = "\<lparr>entries = [(''ratelimit:bob'', ''2'', None)], up = True\<rparr>"
  let ?r7 = "\<lparr>entries = [(''ratelimit:bob'', ''7'', None)], up = True\<rparr>"
  have off: "\<not> connected ?off" by (simp add: RedisCache_init_def redis_ping_def)
  have on: "connected (RedisCache_init ?r)" "redis_client (RedisCache_init ?r) = Some ?r" "up ?r"
    by (simp_all add: RedisCache_init_def redis_ping_def)
  have on7: "connected (RedisCache_init ?r7)" "redis_client (RedisCache_init ?r7) = Some ?r7" "up ?r7"
    by (simp_all add: RedisCache_init_def redis_ping_def)
  have none: "lookup ?r 0 (''ratelimit:'' @ ''alice'') = None" by (simp add: lookup_def)
  have some: "lookup ?r 0 (''ratelimit:'' @ ''bob'') = Some (''2'', None)" by (simp add: lookup_def)
  have some7: "lookup ?r7 0 (''ratelimit:'' @ ''bob'') = Some (''7'', None)" by (simp add: lookup_def)
  have p2: "py_int ''2'' = Some 2" by code_simp
  have p7: "py_int ''7'' = Some 7" by code_simp
  note F = rate_limiter_fail_open[where now = 0 and max_requests = 3]
  have 1: "is_allowed ?off 0 ''bob'' 3 60 = Inr (True, ?off) \<and> get_remaining ?off 0 ''bob'' 3 = Inr 3"
    by (rule F[THEN conjunct1, rule_format, OF off])
  have 2: "get_remaining (RedisCache_init ?r) 0 ''alice'' 3 = Inr 3"
    by (rule F[THEN conjunct2, THEN conjunct1, rule_format, OF on none])
  have 3: "get_remaining (RedisCache_init ?r) 0 ''bob'' 3 = Inr (max 0 (3 - 2))"
    by (rule F[THEN conjunct2, THEN conjunct2, rule_format, OF on some p2])
  have 4: "get_remaining (RedisCache_init ?r7) 0 ''bob'' 3 = Inr (max 0 (3 - 7))"
    by (rule F[THEN conjunct2, THEN conjunct2, rule_format, OF on7 some7 p7])
  from 1 2 3 4 show ?thesis by simp
qed

text \<open>
  Claim C1, as the code has it. With \<^verbatim>\<open>max_requests = 3\<close> and \<^verbatim>\<open>window = 60\<close>, starting
  with no counter for the identifier and with all four calls inside the window that
  the first call opens: the first three calls of \<^verbatim>\<open>is_allowed\<close> return true and the
  fourth returns false; \<^verbatim>\<open>get_remaining\<close> reports 3 before the first call and 2, 1, 0, 0
  after the first, second, third and fourth call.
\<close>

theorem rate_limit_three_of_four:
  assumes c: "connected c" "redis_client c = Some r" "up r"
    and fresh: "lookup r t1 (''ratelimit:'' @ identifier) = None"
    and times: "t2 < t1 + 60000" "t3 < t1 + 60000" "t4 < t1 + 60000"
  shows "\<exists>c1 c2 c3.
     get_remaining c t1 identifier 3 = Inr 3 \<and>
     is_allowed c t1 identifier 3 60 = Inr (True, c1) \<and> get_remaining c1 t1 identifier 3 = Inr 2 \<and>
     is_allowed c1 t2 identifier 3 60 = Inr (True, c2) \<and> get_remaining c2 t2 identifier 3 = Inr 1 \<and>
     is_allowed c2 t3 identifier 3 60 = Inr (True, c3) \<and> get_remaining c3 t3 identifier 3 = Inr 0 \<and>
     is_allowed c3 t4 identifier 3 60 = Inr (False, c3) \<and> get_remaining c3 t4 identifier 3 = Inr 0"
proof -
  let ?k = "''ratelimit:'' @ identifier"
  let ?ex = "Some (t1 + 60 * 1000)"
  define r1 where "r1 = r\<lparr>entries := AList.update ?k (''1'', ?ex) (entries r)\<rparr>"
  define r2 where "r2 = r1\<lparr>entries := AList.update ?k (''2'', ?ex) (entries r1)\<rparr>"
  define r3 where "r3 = r2\<lparr>entries := AList.update ?k (''3'', ?ex) (entries r2)\<rparr>"
  define c1 where "c1 = c\<lparr>redis_client := Some r1\<rparr>"
  define c2 where "c2 = c1\<lparr>redis_client := Some r2\<rparr>"
  define c3 where "c3 = c2\<lparr>redis_client := Some r3\<rparr>"
  have up: "up r1" "up r2" "up r3" using c(3) by (simp_all add: r1_def r2_def r3_def)
  have conn: "connected c1" "connected c2" "connected c3"
    using c(1) by (simp_all add: c1_def c2_def c3_def)
  have cl: "redis_client c1 = Some r1" "redis_client c2 = Some r2" "redis_client c3 = Some r3"
    by (simp_all add: c1_def c2_def c3_def)
  have l1: "lookup r1 t (?k) = Some (''1'', ?ex)" if "t < t1 + 60000" for t
    using that by (simp add: r1_def lookup_update)
  have l2: "lookup r2 t (?k) = Some (''2'', ?ex)" if "t < t1 + 60000" for t
    using that by (simp add: r2_def lookup_update)
  have l3: "lookup r3 t (?k) = Some (''3'', ?ex)" if "t < t1 + 60000" for t
    using that by (simp add: r3_def lookup_update)
  have t1: "t1 < t1 + 60000" by simp
  have a0: "get_remaining c t1 identifier 3 = Inr 3"
    by (rule get_remaining_none[OF c fresh])
  have a1: "is_allowed c t1 identifier 3 60 = Inr (True, c1)"
    using is_allowed_first[OF c fresh, of 60 3] by (simp add: c1_def r1_def show_int_1)
  have b1: "get_remaining c1 t1 identifier 3 = Inr 2"
    using get_remaining_counter[OF conn(1) cl(1) up(1) l1[OF t1] py_int_1, of 3] by simp
  have a2: "is_allowed c1 t2 identifier 3 60 = Inr (True, c2)"
    using is_allowed_next[OF conn(1) cl(1) up(1) l1[OF times(1)] py_int_1 redis_ll_1, of 3 60]
    by (simp add: c2_def r2_def show_int_2)
  have b2: "get_remaining c2 t2 identifier 3 = Inr 1"
    using get_remaining_counter[OF conn(2) cl(2) up(2) l2[OF times(1)] py_int_2, of 3] by simp
  have a3: "is_allowed c2 t3 identifier 3 60 = Inr (True, c3)"
    using is_allowed_next[OF conn(2) cl(2) up(2) l2[OF times(2)] py_int_2 redis_ll_2, of 3 60]
    by (simp add: c3_def r3_def show_int_3)
  have b3: "get_remaining c3 t3 identifier 3 = Inr 0"
    using get_remaining_counter[OF conn(3) cl(3) up(3) l3[OF times(2)] py_int_3, of 3] by simp
  have a4: "is_allowed c3 t4 identifier 3 60 = Inr (False, c3)"
    using is_allowed_denied[OF conn(3) cl(3) up(3) l3[OF times(3)] py_int_3, of 3 60] by simp
  have b4: "get_remaining c3 t4 identifier 3 = Inr 0"
    using get_remaining_counter[OF conn(3) cl(3) up(3) l3[OF times(3)] py_int_3, of 3] by simp
  from a0 a1 b1 a2 b2 a3 b3 a4 b4 show ?thesis by blast
qed

theorem rate_limit_three_of_four_witness:
  "\<exists>c1 c2 c3.
     get_remaining (RedisCache_init \<lparr>entries = [], up = True\<rparr>) 0 ''id'' 3 = Inr 3 \<and>
     is_allowed (RedisCache_init \<lparr>entries = [], up = True\<rparr>) 0 ''id'' 3 60 = Inr (True, c1) \<and>
     get_remaining c1 0 ''id'' 3 = Inr 2 \<and>
     is_allowed c1 1000 ''id'' 3 60 = Inr (True, c2) \<and> get_remaining c2 1000 ''id'' 3 = Inr 1 \<and>
     is_allowed c2 2000 ''id'' 3 60 = Inr (True, c3) \<and> get_remaining c3 2000 ''id'' 3 = Inr 0 \<and>
     is_allowed c3 59999 ''id'' 3 60 = Inr (False, c3) \<and> get_remaining c3 59999 ''id'' 3 = Inr 0"
proof -
  let ?r = "\<lparr>entries = [], up = True\<rparr>"
  have c: "connected (RedisCache_init ?r)" "redis_client (RedisCache_init ?r) = Some ?r" "up ?r"
    by (simp_all add: RedisCache_init_def redis_ping_def)
  have fresh: "lookup ?r 0 (''ratelimit:'' @ ''id'') = None"
    by (simp add: lookup_def)
  have times: "(1000::int) < 0 + 60000" "(2000::int) < 0 + 60000" "(59999::int) < 0 + 60000"
    by simp_all
  show ?thesis
    by (rule rate_limit_three_of_four[OF c fresh times])
qed

text \<open>
  After the first call the counter is 1, so \<^verbatim>\<open>get_remaining\<close> reports 2, not 3.
\<close>

theorem rate_limit_counterexample:
  "(case is_allowed (RedisCache_init \<lparr>entries = [], up = True\<rparr>) 0 ''id'' 3 60 of
      Inl e \<Rightarrow> None
    | Inr (allowed, c1) \<Rightarrow> Some (allowed, get_remaining c1 0 ''id'' 3)) = Some (True, Inr 2)"
  by code_simp

subsection \<open>Key derivation\<close>

lemma length_hexdigest: "length (hexdigest bs) = 2 * length bs"
  by (induction bs) (simp_all add: hexdigest_def)

lemma length_le_bytes: "length (le_bytes n w) = n"
  by (simp add: le_bytes_def)

lemma length_md5: "length (md5 msg) = 16"
  by (simp add: md5_def Let_def length_le_bytes split: prod.splits)

lemma length_md5_hex: "length (hexdigest (md5 msg)) = 32"
  by (simp add: length_hexdigest length_md5)

lemma hex_digit_in: "hex_digit b \<in> set ''0123456789abcdef''"
proof -
  have "b AND 15 \<le> 15" by (rule word_and_le1)
  then have "unat (b AND 15) \<le> 15" by (simp add: word_le_nat_alt)
  then have "unat (b AND 15) < length ''0123456789abcdef''" by simp
  then show ?thesis unfolding hex_digit_def by (rule nth_mem)
qed

lemma hexdigest_set: "set (hexdigest bs) \<subseteq> set ''0123456789abcdef''"
proof (induction bs)
  case Nil
  then show ?case by (simp add: hexdigest_def)
next
  case (Cons b bs)
  have "hexdigest (b # bs) = hex_digit (drop_bit 4 b) # hex_digit b # hexdigest bs"
    by (simp add: hexdigest_def)
  with Cons hex_digit_in[of b] hex_digit_in[of "drop_bit 4 b"] show ?case by simp
qed

lemma filter_same_key:
  "distinct (map fst xs) \<Longrightarrow> x \<in> set xs \<Longrightarrow> filter (\<lambda>y. fst x = fst y) xs = [x]"
proof (induction xs)
  case Nil
  then show ?case by simp
next
  case (Cons a xs)
  show ?case
  proof (cases "x = a")
    case True
    have "filter (\<lambda>y. fst a = fst y) xs = []"
      using Cons.prems(1) by (auto simp: filter_empty_conv image_iff)
    with True show ?thesis by simp
  next
    case False
    with Cons.prems have x: "x \<in> set xs" by simp
    then have "fst x \<noteq> fst a" using Cons.prems(1) by (auto simp: image_iff)
    with Cons.IH x Cons.prems(1) show ?thesis by simp
  qed
qed

lemma sort_key_dict:
  assumes "distinct (map fst xs)" "distinct (map fst ys)" "set ys = set xs"
  shows "sort_key fst ys = sort_key fst xs"
proof (rule properties_for_sort_key[symmetric])
  have d: "distinct xs" "distinct ys" using assms(1,2) by (simp_all add: distinct_map)
  have m: "mset ys = mset xs"
    using d assms(3) by (simp add: set_eq_iff_mset_eq_distinct[symmetric])
  show "mset (sort_key fst ys) = mset xs" using m by simp
  show "sorted (map fst (sort_key fst ys))" by simp
  fix k assume "k \<in> set (sort_key fst ys)"
  then have k: "k \<in> set ys" by simp
  have "distinct (map fst (sort_key fst ys))"
    using assms(2) by (metis distinct_map distinct_sort set_sort mset_map mset_sort mset_eq_imp_distinct_iff)
  then have "filter (\<lambda>x. fst k = fst x) (sort_key fst ys) = [k]"
    using k by (intro filter_same_key) simp_all
  moreover have "filter (\<lambda>x. fst k = fst x) xs = [k]"
    using k assms by (intro filter_same_key) simp_all
  ultimately show "filter (\<lambda>x. fst k = fst x) (sort_key fst ys) = filter (\<lambda>x. fst k = fst x) xs"
    by simp
qed

lemma length_join_prefix: "length prefix \<le> length (join sep (prefix # parts))"
  by (cases parts) simp_all

lemma prefix_le_joined: "length prefix \<le> length (joined_key str prefix args kwargs)"
  by (simp add: joined_key_def Let_def length_join_prefix del: join.simps)

text \<open>
  Claim C3, as the code has it. \<^verbatim>\<open>_generate_key\<close> is a function of its arguments, and
  the order in which the keyword arguments are passed does not matter. A joined key of
  at most 256 characters is returned as it is; a longer one is replaced by the prefix,
  a colon and the 32 hexadecimal digits of the MD5 of the joined key, so the result has
  \<open>length prefix + 33\<close> characters. The result has at most 256 characters whenever the
  prefix has at most 223.
\<close>

theorem generate_key_spec:
  "(distinct (map fst kwargs) \<longrightarrow> distinct (map fst kwargs') \<longrightarrow> set kwargs' = set kwargs \<longrightarrow>
      generate_key str prefix args kwargs' = generate_key str prefix args kwargs) \<and>
   (length (joined_key str prefix args kwargs) \<le> 256 \<longrightarrow>
      generate_key str prefix args kwargs = joined_key str prefix args kwargs) \<and>
   (256 < length (joined_key str prefix args kwargs) \<longrightarrow>
      generate_key str prefix args kwargs =
        prefix @ '':'' @ hexdigest (md5 (encode (joined_key str prefix args kwargs))) \<and>
      length (generate_key str prefix args kwargs) = length prefix + 33) \<and>
   (length prefix \<le> 223 \<longrightarrow> length (generate_key str prefix args kwargs) \<le> 256)"
proof -
  have "joined_key str prefix args kwargs' = joined_key str prefix args kwargs"
    if "distinct (map fst kwargs)" "distinct (map fst kwargs')" "set kwargs' = set kwargs"
  proof -
    from that(3) have "kwargs' = [] \<longleftrightarrow> kwargs = []" by (metis set_empty)
    with sort_key_dict[OF that] show ?thesis by (simp add: joined_key_def Let_def)
  qed
  then show ?thesis
    by (auto simp: generate_key_def Let_def length_md5_hex)
qed

theorem generate_key_spec_witness:
  "generate_key id ''p'' [''x''] [(''b'', ''2''), (''a'', ''1'')] =
     generate_key id ''p'' [''x''] [(''a'', ''1''), (''b'', ''2'')] \<and>
   generate_key id ''p'' [''x''] [(''a'', ''1''), (''b'', ''2'')] = ''p:x:a:1:b:2'' \<and>
   generate_key id ''search'' [''u'', replicate 300 CHR ''q''] [] =
     ''search'' @ '':'' @ hexdigest (md5 (encode (''search:u:'' @ replicate 300 CHR ''q''))) \<and>
   length (generate_key id ''search'' [''u'', replicate 300 CHR ''q''] []) = 39"
proof -
  let ?a = "[(''a'', ''1''), (''b'', ''2'')]"
  let ?b = "[(''b'', ''2''), (''a'', ''1'')]"
  let ?q = "replicate 300 CHR ''q''"
  have d: "distinct (map fst ?a)" "distinct (map fst ?b)" "set ?b = set ?a" by auto
  have j: "joined_key id ''p'' [''x''] ?a = ''p:x:a:1:b:2''"
    by (simp add: joined_key_def)
  have short: "length (joined_key id ''p'' [''x''] ?a) \<le> 256"
    unfolding j by simp
  have jq: "joined_key id ''search'' [''u'', ?q] [] = ''search:u:'' @ ?q"
    by (simp add: joined_key_def)
  have long: "256 < length (joined_key id ''search'' [''u'', ?q] [])"
    unfolding jq by simp
  note G = generate_key_spec[where str = id]
  have 1: "generate_key id ''p'' [''x''] ?b = generate_key id ''p'' [''x''] ?a"
    by (rule G[THEN conjunct1, rule_format, OF d])
  have 2: "generate_key id ''p'' [''x''] ?a = ''p:x:a:1:b:2''"
    using G[THEN conjunct2, THEN conjunct1, rule_format, OF short] j by simp
  have 3: "generate_key id ''search'' [''u'', ?q] [] =
      ''search'' @ '':'' @ hexdigest (md5 (encode (joined_key id ''search'' [''u'', ?q] []))) \<and>
     length (generate_key id ''search'' [''u'', ?q] []) = length ''search'' + 33"
    by (rule G[THEN conjunct2, THEN conjunct2, THEN conjunct1, rule_format, OF long])
  from 1 2 3 jq show ?thesis by (simp add: length_md5_hex)
qed

text \<open>
  The bound of 256 characters fails for a long prefix: the hashed form keeps the whole
  prefix. A prefix of 300 characters gives a key of 333.
\<close>

theorem generate_key_counterexample:
  "256 < length (generate_key (\<lambda>s. s) (replicate 300 CHR ''p'') [] [])"
  by (simp add: generate_key_def joined_key_def Let_def length_md5_hex)

subsection \<open>Cached searches and their invalidation\<close>

lemma glob_user_pattern_digest:
  assumes "set h \<subseteq> set ''0123456789abcdef''"
  shows "\<not> glob_match ''search:u:*'' (''search:'' @ h)"
proof (cases h)
  case Nil
  then show ?thesis by (simp add: glob_match.simps)
next
  case (Cons c cs)
  with assms have "c \<noteq> CHR ''u''" by auto
  with Cons show ?thesis by (simp add: glob_match.simps)
qed

text \<open>
  Claim C7 fails on the code. When the joined key \<open>search:<user_id>:<query>\<close> has more
  than 256 characters, the key written is \<open>search:<md5>\<close>, without the user's id. For
  the user \<^verbatim>\<open>u\<close> and a query of 300 characters, \<^verbatim>\<open>cache_search\<close> succeeds,
  \<^verbatim>\<open>invalidate_searches("u")\<close> clears the pattern \<open>search:u:*\<close>, removes nothing and
  returns 0, and \<^verbatim>\<open>get_cached_search\<close> still returns the cached results.
\<close>

theorem long_query_survives_invalidation:
  "generate_key id ''search'' [''u'', replicate 300 CHR ''q''] [] =
     ''search:'' @ hexdigest (md5 (encode (''search:u:'' @ replicate 300 CHR ''q''))) \<and>
   fst (cache_search Some (MemoryCache_init (RedisCache_init \<lparr>entries = [], up = True\<rparr>)) 0
          (replicate 300 CHR ''q'') ''[1]'' ''u'') \<and>
   invalidate_searches
     (snd (cache_search Some (MemoryCache_init (RedisCache_init \<lparr>entries = [], up = True\<rparr>)) 0
          (replicate 300 CHR ''q'') ''[1]'' ''u'')) 1 ''u'' =
     (0, snd (cache_search Some (MemoryCache_init (RedisCache_init \<lparr>entries = [], up = True\<rparr>)) 0
          (replicate 300 CHR ''q'') ''[1]'' ''u'')) \<and>
   get_cached_search Some
     (snd (cache_search Some (MemoryCache_init (RedisCache_init \<lparr>entries = [], up = True\<rparr>)) 0
          (replicate 300 CHR ''q'') ''[1]'' ''u'')) 2 (replicate 300 CHR ''q'') ''u'' = Some ''[1]''"
proof -
  let ?q = "replicate 300 CHR ''q''"
  let ?k = "''search:'' @ hexdigest (md5 (encode (''search:u:'' @ ?q)))"
  let ?mc = "MemoryCache_init (RedisCache_init \<lparr>entries = [], up = True\<rparr>)"
  let ?r1 = "\<lparr>entries = [(?k, ''[1]'', Some 3600000)], up = True\<rparr>"
  let ?mc1 = "?mc\<lparr>mc_cache := \<lparr>connected = True, redis_client = Some ?r1\<rparr>\<rparr>"
  have key: "generate_key id ''search'' [''u'', ?q] [] = ?k"
    by (simp add: generate_key_def joined_key_def Let_def)
  have w: "cache_search Some ?mc 0 ?q ''[1]'' ''u'' = (True, ?mc1)"
    unfolding cache_search_def key
    by (simp add: MemoryCache_init_def RedisCache_init_def redis_ping_def set_key_def client_def
        redis_setex_def)
  have nomatch: "\<not> glob_match ''search:u:*'' ?k"
    by (rule glob_user_pattern_digest) (rule hexdigest_set)
  have inv: "invalidate_searches ?mc1 1 ''u'' = (0, ?mc1)"
    using nomatch
    by (simp add: invalidate_searches_def clear_pattern_def client_def redis_keys_def
        MemoryCache_init_def Let_def)
  have g: "get_cached_search Some ?mc1 2 ?q ''u'' = Some ''[1]''"
    unfolding get_cached_search_def key
    by (simp add: get_def client_def redis_get_def lookup_def MemoryCache_init_def)
  from key w inv g show ?thesis by simp
qed

end
